theory Spec2Isabelle
  imports Main "HOL-Library.AList"
begin

section \<open>JSON values and the JavaScript coercions the sync service relies on\<close>

text \<open>
  The service (\<^verbatim>\<open>src/services/gitlab-sync.js\<close>) handles the records of the remote API as
  untyped JavaScript values. A value is modelled as a JSON tree extended with
  \<^verbatim>\<open>undefined\<close>, the result of reading a property that is absent. Numbers are the integers
  (identifiers, counters and line statistics are the only numbers the service reads).
  An object is an association list from property names to values.
\<close>

datatype json = JUndef | JNull | JBool bool | JNum int | JStr string
  | JArr "json list" | JObj "(string \<times> json) list"

type_synonym obj = "(string \<times> json) list"

text \<open>\<^verbatim>\<open>o.f\<close> on a record of the remote listing.\<close>

definition property :: "obj \<Rightarrow> string \<Rightarrow> json" where
  "property r f = (case map_of r f of None \<Rightarrow> JUndef | Some v \<Rightarrow> v)"

text \<open>
  \<^verbatim>\<open>v.f\<close> on a value that is neither \<^verbatim>\<open>null\<close> nor \<^verbatim>\<open>undefined\<close> (the service reads
  sub-properties only from \<^verbatim>\<open>x || {}\<close>, which is never nullish, and from the elements of the
  assignee list, which are checked before). On a number, a string, a boolean or an array
  none of the names read (\<^verbatim>\<open>additions\<close>, \<^verbatim>\<open>deletions\<close>, \<^verbatim>\<open>total\<close>, \<^verbatim>\<open>username\<close>,
  \<^verbatim>\<open>name\<close>) is defined.
\<close>

fun sub_property :: "json \<Rightarrow> string \<Rightarrow> json" where
  "sub_property (JObj fs) f = property fs f"
| "sub_property v f = JUndef"

text \<open>JavaScript truthiness, and \<^verbatim>\<open>a || b\<close>.\<close>

fun truthy :: "json \<Rightarrow> bool" where
  "truthy JUndef = False"
| "truthy JNull = False"
| "truthy (JBool b) = b"
| "truthy (JNum n) = (n \<noteq> 0)"
| "truthy (JStr s) = (s \<noteq> [])"
| "truthy (JArr xs) = True"
| "truthy (JObj fs) = True"

definition or_else :: "json \<Rightarrow> json \<Rightarrow> json" where
  "or_else a b = (if truthy a then a else b)"

text \<open>Decimal rendering of numbers, as template literals and query strings produce it.\<close>

definition digit :: "nat \<Rightarrow> char" where
  "digit d = ''0123456789'' ! d"

fun decimal_nat :: "nat \<Rightarrow> string" where
  "decimal_nat n = (if 10 \<le> n then decimal_nat (n div 10) @ [digit (n mod 10)] else [digit n])"

declare decimal_nat.simps [simp del]

definition decimal :: "int \<Rightarrow> string" where
  "decimal i = (if 0 \<le> i then decimal_nat (nat i) else CHR ''-'' # decimal_nat (nat (- i)))"

fun join :: "string \<Rightarrow> string list \<Rightarrow> string" where
  "join sep [] = []"
| "join sep [x] = x"
| "join sep (x # y # ys) = x @ sep @ join sep (y # ys)"

text \<open>
  The string a value turns into inside a template literal \<^verbatim>\<open>`${v}`\<close> and as a value of
  \<^verbatim>\<open>URLSearchParams\<close>.
\<close>

fun js_string :: "json \<Rightarrow> string" where
  "js_string JUndef = ''undefined''"
| "js_string JNull = ''null''"
| "js_string (JBool b) = (if b then ''true'' else ''false'')"
| "js_string (JNum n) = decimal n"
| "js_string (JStr s) = s"
| "js_string (JArr xs) =
     join '','' (map (\<lambda>x. if x = JNull \<or> x = JUndef then [] else js_string x) xs)"
| "js_string (JObj fs) = ''[object Object]''"

text \<open>
  \<^verbatim>\<open>new URLSearchParams(params).toString()\<close>: the properties in insertion order, joined by
  \<^verbatim>\<open>&\<close>. The parameter values the service sends (\<^verbatim>\<open>true\<close>, \<^verbatim>\<open>all\<close>, page numbers) contain no
  character that the form encoding escapes, so no escaping is modelled.
\<close>

definition URLSearchParams_toString :: "obj \<Rightarrow> string" where
  "URLSearchParams_toString params = join ''&'' (map (\<lambda>(k, v). k @ ''='' @ js_string v) params)"

section \<open>Errors\<close>

text \<open>
  Everything the service throws or lets through is an error object with a message:
  \<^verbatim>\<open>new Error(...)\<close> raised by the service itself, by \<^verbatim>\<open>getDB\<close> or by the database driver,
  and the \<^verbatim>\<open>TypeError\<close> of the runtime (a rejected \<^verbatim>\<open>fetch\<close>, a method call on a value that
  has no such method).
\<close>

datatype error = Error string | TypeError string

fun message :: "error \<Rightarrow> string" where
  "message (Error m) = m"
| "message (TypeError m) = m"

section \<open>The document store\<close>

text \<open>
  The store (\<^verbatim>\<open>src/config/db.js\<close>, a MongoDB database) is a family of collections, each a
  list of documents in insertion order; a document is an object. The service uses three
  operations of the driver: \<^verbatim>\<open>updateOne(filter, {$set: doc}, {upsert: true})\<close>,
  \<^verbatim>\<open>bulkWrite\<close> of such operations, and \<^verbatim>\<open>countDocuments({})\<close>.

  A filter \<^verbatim>\<open>{f1: v1, ..., fn: vn}\<close> selects the documents whose fields \<^verbatim>\<open>f1 .. fn\<close> hold
  these values; \<^verbatim>\<open>updateOne\<close> changes the first selected document. The matching of a
  scalar against an array-valued field and of \<^verbatim>\<open>null\<close> against an absent field, which MongoDB
  adds to equality, are outside the model, and so is the \<^verbatim>\<open>_id\<close> the server gives a new
  document (the service never reads or writes it).
\<close>

type_synonym doc = obj

type_synonym database = "string \<Rightarrow> doc list"

datatype write_op = UpdateOneOp (op_filter: doc) (op_set: doc)

definition matches :: "doc \<Rightarrow> doc \<Rightarrow> bool" where
  "matches flt d = list_all (\<lambda>(f, v). map_of d f = Some v) flt"

text \<open>
  \<^verbatim>\<open>$set\<close>: every listed field is written, in place when the document has it and at the end
  otherwise; no other field is touched.
\<close>

fun set_fields :: "doc \<Rightarrow> doc \<Rightarrow> doc" where
  "set_fields [] d = d"
| "set_fields ((f, v) # fs) d = set_fields fs (AList.update f v d)"

text \<open>
  An update with \<^verbatim>\<open>upsert: true\<close>: the first matching document is updated; when none
  matches, a document made of the filter's fields and the \<^verbatim>\<open>$set\<close> fields is inserted.
\<close>

fun upsert :: "write_op \<Rightarrow> doc list \<Rightarrow> doc list" where
  "upsert u [] = [set_fields (op_set u) (op_filter u)]"
| "upsert u (d # ds) =
     (if matches (op_filter u) d then set_fields (op_set u) d # ds else d # upsert u ds)"

text \<open>
  The driver serialises the documents it sends; with its default options an
  \<^verbatim>\<open>undefined\<close> value is written as \<^verbatim>\<open>null\<close>, at any depth.
\<close>

primrec bson :: "json \<Rightarrow> json" where
  "bson JUndef = JNull"
| "bson JNull = JNull"
| "bson (JBool b) = JBool b"
| "bson (JNum n) = JNum n"
| "bson (JStr s) = JStr s"
| "bson (JArr xs) = JArr (map bson xs)"
| "bson (JObj fs) = JObj (map (map_prod id bson) fs)"

definition serialize :: "doc \<Rightarrow> doc" where
  "serialize d = map (map_prod id bson) d"

definition serialize_op :: "write_op \<Rightarrow> write_op" where
  "serialize_op u = UpdateOneOp (serialize (op_filter u)) (serialize (op_set u))"

section \<open>The world: store, remote API, console\<close>

text \<open>
  What a run does to its surroundings is recorded as a trace of events, in the order in
  which they happen: the URL of every \<^verbatim>\<open>fetch\<close>, every write call sent to the store (with
  the collection's name), and every console line.
\<close>

datatype event =
    Fetch string
  | UpdateOne string doc doc
  | BulkWrite string "write_op list"
  | ConsoleLog string
  | ConsoleError "string list"

text \<open>The effect of an event on the store: only the write calls have one.\<close>

fun effect :: "event \<Rightarrow> database \<Rightarrow> database" where
  "effect (UpdateOne c flt d) s = s(c := upsert (serialize_op (UpdateOneOp flt d)) (s c))"
| "effect (BulkWrite c ops) s = s(c := fold upsert (map serialize_op ops) (s c))"
| "effect (Fetch u) s = s"
| "effect (ConsoleLog l) s = s"
| "effect (ConsoleError ls) s = s"

text \<open>
  The module variable \<^verbatim>\<open>db\<close> of \<^verbatim>\<open>src/config/db.js\<close> is unset (\<open>None\<close>) until \<^verbatim>\<open>connectDB\<close>
  has run.
\<close>

record world =
  db :: "database option"
  trace :: "event list"

definition perform :: "event \<Rightarrow> world \<Rightarrow> world" where
  "perform ev w = \<lparr>db = map_option (effect ev) (db w), trace = trace w @ [ev]\<rparr>"

text \<open>
  The remote API as one snapshot: the answer to a request depends on its URL only. A
  request is rejected (no response at all), or answered with a status, a status text and
  a body; the listing endpoints answer with a JSON array of objects. The constant request
  header carrying the token is not modelled.
\<close>

datatype response = Rejected error | Response int string "obj list"

record env =
  GITLAB_URL :: string
  fetch :: "string \<Rightarrow> response"

text \<open>\<^verbatim>\<open>res.ok\<close>: the status is in the range 200 to 299.\<close>

definition ok :: "int \<Rightarrow> bool" where
  "ok st = (200 \<le> st \<and> st \<le> 299)"

text \<open>
  An asynchronous function of the service either never settles (\<open>None\<close>), or settles with
  a thrown error or a value, in a new world.
\<close>

type_synonym 'a outcome = "((error + 'a) \<times> world) option"

text \<open>\<^verbatim>\<open>await\<close> followed by the rest of the function: an error or a divergence ends it.\<close>

definition andThen :: "'a outcome \<Rightarrow> ('a \<Rightarrow> world \<Rightarrow> 'b outcome) \<Rightarrow> 'b outcome" where
  "andThen m f =
     (case m of
        None \<Rightarrow> None
      | Some (Inl e, w) \<Rightarrow> Some (Inl e, w)
      | Some (Inr x, w) \<Rightarrow> f x w)"

definition getDB :: "world \<Rightarrow> unit outcome" where
  "getDB w =
     (case db w of
        None \<Rightarrow> Some (Inl (Error ''Database not connected''), w)
      | Some s \<Rightarrow> Some (Inr (), w))"

definition console_log :: "string \<Rightarrow> world \<Rightarrow> world" where
  "console_log l w = perform (ConsoleLog l) w"

definition console_error :: "string list \<Rightarrow> world \<Rightarrow> world" where
  "console_error ls w = perform (ConsoleError ls) w"

definition updateOne :: "string \<Rightarrow> doc \<Rightarrow> doc \<Rightarrow> world \<Rightarrow> unit outcome" where
  "updateOne c flt d w = Some (Inr (), perform (UpdateOne c flt d) w)"

text \<open>The driver refuses an empty batch before anything is sent.\<close>

definition bulkWrite :: "string \<Rightarrow> write_op list \<Rightarrow> world \<Rightarrow> unit outcome" where
  "bulkWrite c ops w =
     (if ops = [] then Some (Inl (Error ''Invalid BulkOperation, Batch cannot be empty''), w)
      else Some (Inr (), perform (BulkWrite c ops) w))"

definition countDocuments :: "string \<Rightarrow> world \<Rightarrow> nat" where
  "countDocuments c w = (case db w of None \<Rightarrow> 0 | Some s \<Rightarrow> length (s c))"

section \<open>The paginator\<close>

text \<open>
  \<^verbatim>\<open>paginatedGet\<close> sets \<^verbatim>\<open>params.per_page = 100\<close> and \<^verbatim>\<open>params.page = 1\<close> and loops. The
  loop \<open>paginate\<close> carries the value of \<^verbatim>\<open>params.page\<close> and the array \<^verbatim>\<open>results\<close>. It has no
  bound of its own: against a remote that never answers with an empty page it does not
  return.
\<close>

partial_function (option) paginate ::
  "env \<Rightarrow> string \<Rightarrow> obj \<Rightarrow> int \<Rightarrow> obj list \<Rightarrow> world \<Rightarrow> ((error + obj list) \<times> world) option"
where
  "paginate e url params page results w =
     (let qs = URLSearchParams_toString (AList.update ''page'' (JNum page) params);
          target = url @ ''?'' @ qs;
          w1 = perform (Fetch target) w
      in case fetch e target of
           Rejected err \<Rightarrow> Some (Inl err, w1)
         | Response st txt data \<Rightarrow>
             if \<not> ok st then
               Some (Inl (Error (''GitLab API error: '' @ decimal st @ '' '' @ txt
                                 @ '' for '' @ url)), w1)
             else if length data = 0 then Some (Inr results, w1)
             else paginate e url params (page + 1) (results @ data) w1)"

declare paginate.simps [code]

definition paginatedGet :: "env \<Rightarrow> string \<Rightarrow> obj \<Rightarrow> world \<Rightarrow> (obj list) outcome" where
  "paginatedGet e url params w =
     paginate e url (AList.update ''page'' (JNum 1) (AList.update ''per_page'' (JNum 100) params))
       1 [] w"

section \<open>The entity syncers\<close>

subsection \<open>Mapping remote records to write operations\<close>

definition member_op :: "json \<Rightarrow> obj \<Rightarrow> write_op" where
  "member_op projectId m =
     UpdateOneOp
       [(''project_id'', projectId), (''user_id'', property m ''id'')]
       [(''project_id'', projectId),
        (''user_id'', property m ''id''),
        (''username'', property m ''username''),
        (''name'', property m ''name''),
        (''access_level'', property m ''access_level'')]"

definition commit_op :: "json \<Rightarrow> obj \<Rightarrow> write_op" where
  "commit_op projectId c =
     (let stats = or_else (property c ''stats'') (JObj [])
      in UpdateOneOp
           [(''project_id'', projectId), (''sha'', property c ''id'')]
           [(''project_id'', projectId),
            (''sha'', property c ''id''),
            (''short_id'', property c ''short_id''),
            (''author_name'', property c ''author_name''),
            (''author_email'', property c ''author_email''),
            (''committed_date'', property c ''committed_date''),
            (''message'', property c ''message''),
            (''additions'', or_else (sub_property stats ''additions'') (JNum 0)),
            (''deletions'', or_else (sub_property stats ''deletions'') (JNum 0)),
            (''total'', or_else (sub_property stats ''total'') (JNum 0))])"

definition mr_op :: "json \<Rightarrow> obj \<Rightarrow> write_op" where
  "mr_op projectId mr =
     (let author = or_else (property mr ''author'') (JObj [])
      in UpdateOneOp
           [(''project_id'', projectId), (''iid'', property mr ''iid'')]
           [(''project_id'', projectId),
            (''iid'', property mr ''iid''),
            (''title'', property mr ''title''),
            (''author_username'', or_else (sub_property author ''username'') JNull),
            (''author_name'', or_else (sub_property author ''name'') JNull),
            (''state'', property mr ''state''),
            (''created_at'', property mr ''created_at''),
            (''merged_at'', or_else (property mr ''merged_at'') JNull),
            (''closed_at'', or_else (property mr ''closed_at'') JNull),
            (''source_branch'', property mr ''source_branch''),
            (''target_branch'', property mr ''target_branch''),
            (''merge_commit_sha'', or_else (property mr ''merge_commit_sha'') JNull)])"

text \<open>
  \<^verbatim>\<open>xs.map(f)\<close> where \<^verbatim>\<open>f\<close> may throw: the first element that throws ends the mapping.
\<close>

fun traverse :: "('a \<Rightarrow> error + 'b) \<Rightarrow> 'a list \<Rightarrow> error + 'b list" where
  "traverse f [] = Inr []"
| "traverse f (x # xs) =
     (case f x of
        Inl e \<Rightarrow> Inl e
      | Inr y \<Rightarrow> (case traverse f xs of Inl e \<Rightarrow> Inl e | Inr ys \<Rightarrow> Inr (y # ys)))"

text \<open>
  \<^verbatim>\<open>(issue.assignees || []).map(a => ({username: a.username, name: a.name}))\<close>. The runtime
  throws a \<^verbatim>\<open>TypeError\<close> when the value has no \<^verbatim>\<open>map\<close> method (anything but an array) and
  when an element is \<^verbatim>\<open>null\<close>; the wording of those messages is the runtime's.
\<close>

definition assignee :: "json \<Rightarrow> error + json" where
  "assignee a =
     (if a = JNull \<or> a = JUndef then Inl (TypeError ''Cannot read properties of null'')
      else Inr (JObj [(''username'', sub_property a ''username''), (''name'', sub_property a ''name'')]))"

definition assignees_of :: "json \<Rightarrow> error + json" where
  "assignees_of v =
     (case or_else v (JArr []) of
        JArr xs \<Rightarrow> (case traverse assignee xs of Inl e \<Rightarrow> Inl e | Inr ys \<Rightarrow> Inr (JArr ys))
      | _ \<Rightarrow> Inl (TypeError ''(issue.assignees || []).map is not a function''))"

definition issue_op :: "json \<Rightarrow> obj \<Rightarrow> error + write_op" where
  "issue_op projectId issue =
     (let author = or_else (property issue ''author'') (JObj [])
      in case assignees_of (property issue ''assignees'') of
           Inl e \<Rightarrow> Inl e
         | Inr assignees \<Rightarrow>
             Inr (UpdateOneOp
               [(''project_id'', projectId), (''iid'', property issue ''iid'')]
               [(''project_id'', projectId),
                (''iid'', property issue ''iid''),
                (''title'', property issue ''title''),
                (''author_username'', or_else (sub_property author ''username'') JNull),
                (''author_name'', or_else (sub_property author ''name'') JNull),
                (''assignees'', assignees),
                (''state'', property issue ''state''),
                (''labels'', or_else (property issue ''labels'') (JArr [])),
                (''created_at'', property issue ''created_at''),
                (''closed_at'', or_else (property issue ''closed_at'') JNull)]))"

subsection \<open>The four per-project syncers\<close>

definition syncMembers :: "env \<Rightarrow> json \<Rightarrow> world \<Rightarrow> nat outcome" where
  "syncMembers e projectId w =
     andThen (getDB w) (\<lambda>_ w.
     andThen (paginatedGet e
        (GITLAB_URL e @ ''/api/v4/projects/'' @ js_string projectId @ ''/members/all'') [] w)
       (\<lambda>members w.
          if length members = 0 then Some (Inr 0, w)
          else let ops = map (member_op projectId) members
               in andThen (bulkWrite ''members'' ops w) (\<lambda>_ w. Some (Inr (length ops), w))))"

definition syncCommits :: "env \<Rightarrow> json \<Rightarrow> world \<Rightarrow> nat outcome" where
  "syncCommits e projectId w =
     andThen (getDB w) (\<lambda>_ w.
     andThen (paginatedGet e
        (GITLAB_URL e @ ''/api/v4/projects/'' @ js_string projectId @ ''/repository/commits'')
        [(''all'', JBool True), (''with_stats'', JBool True)] w)
       (\<lambda>commits w.
          if length commits = 0 then Some (Inr 0, w)
          else let ops = map (commit_op projectId) commits
               in andThen (bulkWrite ''commits'' ops w) (\<lambda>_ w. Some (Inr (length ops), w))))"

definition syncMergeRequests :: "env \<Rightarrow> json \<Rightarrow> world \<Rightarrow> nat outcome" where
  "syncMergeRequests e projectId w =
     andThen (getDB w) (\<lambda>_ w.
     andThen (paginatedGet e
        (GITLAB_URL e @ ''/api/v4/projects/'' @ js_string projectId @ ''/merge_requests'')
        [(''state'', JStr ''all'')] w)
       (\<lambda>mrs w.
          if length mrs = 0 then Some (Inr 0, w)
          else let ops = map (mr_op projectId) mrs
               in andThen (bulkWrite ''merge_requests'' ops w)
                    (\<lambda>_ w. Some (Inr (length ops), w))))"

definition syncIssues :: "env \<Rightarrow> json \<Rightarrow> world \<Rightarrow> nat outcome" where
  "syncIssues e projectId w =
     andThen (getDB w) (\<lambda>_ w.
     andThen (paginatedGet e
        (GITLAB_URL e @ ''/api/v4/projects/'' @ js_string projectId @ ''/issues'')
        [(''state'', JStr ''all'')] w)
       (\<lambda>issues w.
          if length issues = 0 then Some (Inr 0, w)
          else case traverse (issue_op projectId) issues of
                 Inl err \<Rightarrow> Some (Inl err, w)
               | Inr ops \<Rightarrow>
                   andThen (bulkWrite ''issues'' ops w) (\<lambda>_ w. Some (Inr (length ops), w))))"

section \<open>The orchestrator\<close>

definition project_doc :: "obj \<Rightarrow> doc" where
  "project_doc project =
     [(''project_id'', property project ''id''),
      (''name'', property project ''name''),
      (''path_with_namespace'', property project ''path_with_namespace''),
      (''description'', or_else (property project ''description'') JNull),
      (''created_at'', property project ''created_at''),
      (''default_branch'', or_else (property project ''default_branch'') JNull),
      (''web_url'', property project ''web_url'')]"

text \<open>The body of \<^verbatim>\<open>for (const project of projects)\<close> in \<^verbatim>\<open>syncProjects\<close>.\<close>

fun syncProjects_loop :: "env \<Rightarrow> obj list \<Rightarrow> world \<Rightarrow> unit outcome" where
  "syncProjects_loop e [] w = Some (Inr (), w)"
| "syncProjects_loop e (project # rest) w =
     (let pid = property project ''id'';
          name = property project ''path_with_namespace'';
          w = console_log (''[gitlab-sync] --- '' @ js_string name @ '' (id='' @ js_string pid
                           @ '') ---'') w;
          doc = project_doc project
      in andThen (updateOne ''projects'' [(''project_id'', property doc ''project_id'')] doc w) (\<lambda>_ w.
         let w = console_log ''[gitlab-sync]   project saved'' w in
         andThen (syncMembers e pid w) (\<lambda>n w.
         let w = console_log (''[gitlab-sync]   '' @ decimal_nat n @ '' members'') w in
         andThen (syncCommits e pid w) (\<lambda>n w.
         let w = console_log (''[gitlab-sync]   '' @ decimal_nat n @ '' commits'') w in
         andThen (syncMergeRequests e pid w) (\<lambda>n w.
         let w = console_log (''[gitlab-sync]   '' @ decimal_nat n @ '' merge requests'') w in
         andThen (syncIssues e pid w) (\<lambda>n w.
         let w = console_log (''[gitlab-sync]   '' @ decimal_nat n @ '' issues'') w in
         syncProjects_loop e rest w))))))"

definition syncProjects :: "env \<Rightarrow> world \<Rightarrow> nat outcome" where
  "syncProjects e w =
     andThen (getDB w) (\<lambda>_ w.
     andThen (paginatedGet e (GITLAB_URL e @ ''/api/v4/projects'') [(''membership'', JBool True)] w)
       (\<lambda>projects w.
          let w = console_log (''[gitlab-sync] Found '' @ decimal_nat (length projects)
                               @ '' projects'') w
          in andThen (syncProjects_loop e projects w) (\<lambda>_ w. Some (Inr (length projects), w))))"

text \<open>
  The clock of a run: \<^verbatim>\<open>Date.now()\<close> and \<^verbatim>\<open>new Date().toISOString()\<close> at the start,
  \<^verbatim>\<open>Date.now()\<close> at the end, and the rendering \<^verbatim>\<open>(ms / 1000).toFixed(1)\<close> of a number of
  milliseconds, which rounds a floating-point quotient and is taken as given.
\<close>

record clock =
  start_now :: int
  start_iso :: string
  end_now :: int
  seconds_toFixed1 :: "int \<Rightarrow> string"

definition summary_line :: "string \<Rightarrow> world \<Rightarrow> world" where
  "summary_line col w =
     (let count = countDocuments col w
      in console_log (''[gitlab-sync]   '' @ col @ '': '' @ decimal_nat count @ '' documents'') w)"

text \<open>
  \<^verbatim>\<open>runSync\<close>: the \<^verbatim>\<open>try\<close> block is the first argument of the \<^verbatim>\<open>case\<close>, the \<^verbatim>\<open>catch\<close> block
  its \<open>Inl\<close> branch. The function itself never throws.
\<close>

definition runSync :: "env \<Rightarrow> clock \<Rightarrow> world \<Rightarrow> world option" where
  "runSync e clk w =
     (let startTime = start_now clk;
          w = console_log (''[gitlab-sync] Starting sync at '' @ start_iso clk) w
      in case
           andThen (syncProjects e w) (\<lambda>projectCount w.
           andThen (getDB w) (\<lambda>_ w.
             let w = console_log ''[gitlab-sync] === MongoDB summary (afonsystem) ==='' w;
                 w = fold summary_line
                       [''projects'', ''members'', ''commits'', ''merge_requests'', ''issues''] w;
                 elapsed = seconds_toFixed1 clk (end_now clk - startTime);
                 w = console_log (''[gitlab-sync] Sync completed: '' @ decimal_nat projectCount
                                  @ '' projects in '' @ elapsed @ ''s'') w
             in Some (Inr (), w)))
         of
           None \<Rightarrow> None
         | Some (Inl err, w) \<Rightarrow>
             Some (console_error [''[gitlab-sync] Sync failed:'', message err] w)
         | Some (Inr u, w) \<Rightarrow> Some w)"

text \<open>
  The run ended in the \<^verbatim>\<open>catch\<close> block: its last console line is the failure report.
\<close>

definition run_failed :: "world \<Rightarrow> bool" where
  "run_failed w =
     (case rev (trace w) of
        ConsoleError ls # _ \<Rightarrow> take 1 ls = [''[gitlab-sync] Sync failed:'']
      | _ \<Rightarrow> False)"

section \<open>Vocabulary of the properties\<close>

text \<open>
  The notions below belong to the statements and proofs, not to the program: the shape of
  the write operations of one collection, uniqueness of natural keys, the replay of a trace
  on a store, and what it means for a function of the service to depend on the remote
  only.
\<close>

definition wf_op :: "string list \<Rightarrow> string list \<Rightarrow> write_op \<Rightarrow> bool" where
  "wf_op keys names u =
     (map fst (op_filter u) = keys \<and> map fst (op_set u) = names \<and>
      distinct keys \<and> distinct names \<and>
      list_all (\<lambda>f. map_of (op_set u) f = map_of (op_filter u) f) keys)"

definition key_tuple :: "string list \<Rightarrow> doc \<Rightarrow> json option list" where
  "key_tuple keys d = map (map_of d) keys"

definition unique_keys :: "string list \<Rightarrow> doc list \<Rightarrow> bool" where
  "unique_keys keys c = distinct (map (key_tuple keys) c)"

definition carries :: "write_op \<Rightarrow> doc \<Rightarrow> bool" where
  "carries u d = (matches (op_filter u) d \<and> list_all (\<lambda>(f, v). map_of d f = Some v) (op_set u))"

definition page_url :: "string \<Rightarrow> obj \<Rightarrow> int \<Rightarrow> string" where
  "page_url url params page =
     url @ ''?'' @ URLSearchParams_toString
       (AList.update ''page'' (JNum page) (AList.update ''per_page'' (JNum 100) params))"

definition performs :: "event list \<Rightarrow> world \<Rightarrow> world" where
  "performs evs w = fold perform evs w"

definition replay :: "event list \<Rightarrow> database \<Rightarrow> database" where
  "replay evs s = fold effect evs s"

definition key_fields :: "string \<Rightarrow> string list" where
  "key_fields c =
     (if c = ''projects'' then [''project_id'']
      else if c = ''members'' then [''project_id'', ''user_id'']
      else if c = ''commits'' then [''project_id'', ''sha'']
      else [''project_id'', ''iid''])"

definition mapped_fields :: "string \<Rightarrow> string list" where
  "mapped_fields c =
     (if c = ''projects'' then
        [''project_id'', ''name'', ''path_with_namespace'', ''description'', ''created_at'',
         ''default_branch'', ''web_url'']
      else if c = ''members'' then
        [''project_id'', ''user_id'', ''username'', ''name'', ''access_level'']
      else if c = ''commits'' then
        [''project_id'', ''sha'', ''short_id'', ''author_name'', ''author_email'',
         ''committed_date'', ''message'', ''additions'', ''deletions'', ''total'']
      else if c = ''merge_requests'' then
        [''project_id'', ''iid'', ''title'', ''author_username'', ''author_name'', ''state'',
         ''created_at'', ''merged_at'', ''closed_at'', ''source_branch'', ''target_branch'',
         ''merge_commit_sha'']
      else
        [''project_id'', ''iid'', ''title'', ''author_username'', ''author_name'', ''assignees'',
         ''state'', ''labels'', ''created_at'', ''closed_at''])"

definition partitions :: "string list" where
  "partitions = [''projects'', ''members'', ''commits'', ''merge_requests'', ''issues'']"

definition conforming_op :: "string \<Rightarrow> write_op \<Rightarrow> bool" where
  "conforming_op c u = wf_op (key_fields c) (mapped_fields c) (serialize_op u)"

fun conforms :: "event \<Rightarrow> bool" where
  "conforms (UpdateOne c flt d) = conforming_op c (UpdateOneOp flt d)"
| "conforms (BulkWrite c ops) = list_all (conforming_op c) ops"
| "conforms (Fetch u) = True"
| "conforms (ConsoleLog l) = True"
| "conforms (ConsoleError ls) = False"

fun ops_of :: "string \<Rightarrow> event \<Rightarrow> write_op list" where
  "ops_of c (UpdateOne c' flt d) = (if c' = c then [serialize_op (UpdateOneOp flt d)] else [])"
| "ops_of c (BulkWrite c' ops) = (if c' = c then map serialize_op ops else [])"
| "ops_of c (Fetch u) = []"
| "ops_of c (ConsoleLog l) = []"
| "ops_of c (ConsoleError ls) = []"

definition writes_to :: "string \<Rightarrow> event list \<Rightarrow> write_op list" where
  "writes_to c evs = concat (map (ops_of c) evs)"

fun succeeded :: "env \<Rightarrow> event \<Rightarrow> bool" where
  "succeeded e (Fetch u) = (case fetch e u of Rejected err \<Rightarrow> False | Response st txt b \<Rightarrow> ok st)"
| "succeeded e ev = True"

definition api_error :: "int \<Rightarrow> string \<Rightarrow> string \<Rightarrow> error" where
  "api_error st txt url =
     Error (''GitLab API error: '' @ decimal st @ '' '' @ txt @ '' for '' @ url)"

definition failure :: "env \<Rightarrow> string \<Rightarrow> error \<Rightarrow> bool" where
  "failure e u err =
     (case fetch e u of
        Rejected x \<Rightarrow> err = x
      | Response st txt b \<Rightarrow>
          \<not> ok st \<and> (\<exists>url qs. u = url @ ''?'' @ qs \<and> err = api_error st txt url))"

definition fetch_outcome :: "env \<Rightarrow> event list \<Rightarrow> error + 'a \<Rightarrow> bool" where
  "fetch_outcome e evs r =
     (list_all (succeeded e) evs \<or>
      (\<exists>evs0 u err. evs = evs0 @ [Fetch u] \<and> list_all (succeeded e) evs0 \<and>
          r = Inl err \<and> failure e u err))"

definition tracks :: "env \<Rightarrow> (world \<Rightarrow> 'a outcome) \<Rightarrow> bool" where
  "tracks e f =
     (\<forall>w r w'. db w \<noteq> None \<longrightarrow> f w = Some (r, w') \<longrightarrow>
        (\<exists>evs. w' = performs evs w \<and> list_all conforms evs \<and> fetch_outcome e evs r \<and>
               (\<forall>v. db v \<noteq> None \<longrightarrow> f v = Some (r, performs evs v))))"

definition unique_store :: "database \<Rightarrow> bool" where
  "unique_store s = list_all (\<lambda>c. unique_keys (key_fields c) (s c)) partitions"

text \<open>
  The collection an event writes to, and the collections a trace writes to, in order.
\<close>

fun target :: "event \<Rightarrow> string option" where
  "target (UpdateOne c flt d) = Some c"
| "target (BulkWrite c ops) = Some c"
| "target ev = None"

definition write_targets :: "event list \<Rightarrow> string list" where
  "write_targets evs = concat (map (\<lambda>ev. case target ev of None \<Rightarrow> [] | Some c \<Rightarrow> [c]) evs)"

text \<open>\<open>in_order xs ys\<close>: \<open>xs\<close> is \<open>ys\<close> with some elements left out.\<close>

fun in_order :: "'a list \<Rightarrow> 'a list \<Rightarrow> bool" where
  "in_order [] ys = True"
| "in_order (x # xs) [] = False"
| "in_order (x # xs) (y # ys) = (if x = y then in_order xs ys else in_order (x # xs) ys)"

definition optional :: "string \<Rightarrow> string list \<Rightarrow> bool" where
  "optional c t = (t = [] \<or> t = [c])"

text \<open>Every write of the event is filtered on the given project id.\<close>

fun owned :: "json \<Rightarrow> event \<Rightarrow> bool" where
  "owned pid (UpdateOne c flt d) = (map_of flt ''project_id'' = Some pid)"
| "owned pid (BulkWrite c ops) =
     list_all (\<lambda>u. map_of (op_filter u) ''project_id'' = Some pid) ops"
| "owned pid ev = True"

text \<open>
  The world after the first three statements of the loop body of \<^verbatim>\<open>syncProjects\<close>: the
  header line, the upsert of the project record, the line \<^verbatim>\<open>project saved\<close>.
\<close>

definition project_saved :: "obj \<Rightarrow> world \<Rightarrow> world" where
  "project_saved project w =
     console_log ''[gitlab-sync]   project saved''
       (perform (UpdateOne ''projects''
                   [(''project_id'', property (project_doc project) ''project_id'')]
                   (project_doc project))
          (console_log (''[gitlab-sync] --- '' @ js_string (property project ''path_with_namespace'')
                        @ '' (id='' @ js_string (property project ''id'') @ '') ---'') w))"

text \<open>The lines a successful run prints after \<^verbatim>\<open>syncProjects\<close> returned.\<close>

fun is_console_error :: "event \<Rightarrow> bool" where
  "is_console_error (ConsoleError ls) = True"
| "is_console_error ev = False"

definition summary :: "clock \<Rightarrow> nat \<Rightarrow> database \<Rightarrow> event list" where
  "summary clk n s =
     [ConsoleLog ''[gitlab-sync] === MongoDB summary (afonsystem) ==='',
      ConsoleLog (''[gitlab-sync]   projects: '' @ decimal_nat (length (s ''projects''))
                  @ '' documents''),
      ConsoleLog (''[gitlab-sync]   members: '' @ decimal_nat (length (s ''members''))
                  @ '' documents''),
      ConsoleLog (''[gitlab-sync]   commits: '' @ decimal_nat (length (s ''commits''))
                  @ '' documents''),
      ConsoleLog (''[gitlab-sync]   merge_requests: ''
                  @ decimal_nat (length (s ''merge_requests'')) @ '' documents''),
      ConsoleLog (''[gitlab-sync]   issues: '' @ decimal_nat (length (s ''issues''))
                  @ '' documents''),
      ConsoleLog (''[gitlab-sync] Sync completed: '' @ decimal_nat n @ '' projects in ''
                  @ seconds_toFixed1 clk (end_now clk - start_now clk) @ ''s'')]"

text \<open>Some console line of the run contains the rendering of the elapsed time.\<close>

fun starts_with :: "string \<Rightarrow> string \<Rightarrow> bool" where
  "starts_with [] l = True"
| "starts_with (c # cs) [] = False"
| "starts_with (c # cs) (x # xs) = (c = x \<and> starts_with cs xs)"

fun contains :: "string \<Rightarrow> string \<Rightarrow> bool" where
  "contains s [] = (s = [])"
| "contains s (x # xs) = (starts_with s (x # xs) \<or> contains s xs)"

fun console_text :: "event \<Rightarrow> string list" where
  "console_text (ConsoleLog l) = [l]"
| "console_text (ConsoleError ls) = ls"
| "console_text ev = []"

definition reports_elapsed :: "clock \<Rightarrow> world \<Rightarrow> world \<Rightarrow> bool" where
  "reports_elapsed clk w w' =
     list_ex (contains (seconds_toFixed1 clk (end_now clk - start_now clk)))
       (concat (map console_text (drop (length (trace w)) (trace w'))))"

section \<open>Sample remotes and stores\<close>

text \<open>Concrete inputs on which the theorems below are instantiated.\<close>

definition sample_record :: obj where
  "sample_record = [(''id'', JNum 1)]"

definition three_pages :: "string \<Rightarrow> response" where
  "three_pages u =
     (if u = ''g/items?per_page=100&page=1'' then Response 200 ''OK'' (replicate 100 sample_record)
      else if u = ''g/items?per_page=100&page=2'' then Response 200 ''OK'' (replicate 100 sample_record)
      else Response 200 ''OK'' [])"

definition empty_store :: database where
  "empty_store c = []"

definition empty_remote :: "string \<Rightarrow> response" where
  "empty_remote u = Response 200 ''OK'' []"

definition project1 :: obj where
  "project1 = [(''id'', JNum 1), (''name'', JStr ''app''),
               (''path_with_namespace'', JStr ''team/app''), (''web_url'', JStr ''g/team/app'')]"

definition project2 :: obj where
  "project2 = [(''id'', JNum 2), (''name'', JStr ''lib''),
               (''path_with_namespace'', JStr ''team/lib''), (''web_url'', JStr ''g/team/lib'')]"

definition member10 :: obj where
  "member10 = [(''id'', JNum 10), (''username'', JStr ''ann''), (''name'', JStr ''Ann''),
               (''access_level'', JNum 30)]"

definition commit_abc :: obj where
  "commit_abc = [(''id'', JStr ''abc''), (''short_id'', JStr ''ab''), (''message'', JStr ''init'')]"

definition mr7 :: "string \<Rightarrow> obj" where
  "mr7 st = [(''iid'', JNum 7), (''title'', JStr ''fix''), (''state'', JStr st)]"

definition healthy :: "string \<Rightarrow> response" where
  "healthy u =
     (if u = ''g/api/v4/projects?membership=true&per_page=100&page=1''
        then Response 200 ''OK'' [project1]
      else if u = ''g/api/v4/projects/1/members/all?per_page=100&page=1''
        then Response 200 ''OK'' [member10]
      else if u = ''g/api/v4/projects/1/repository/commits?all=true&with_stats=true&per_page=100&page=1''
        then Response 200 ''OK'' [commit_abc]
      else if u = ''g/api/v4/projects/1/merge_requests?state=all&per_page=100&page=1''
        then Response 200 ''OK'' [mr7 ''merged'']
      else Response 200 ''OK'' [])"

definition broken :: "string \<Rightarrow> response" where
  "broken u =
     (if u = ''g/api/v4/projects?membership=true&per_page=100&page=1''
        then Response 200 ''OK'' [project1, project2]
      else if u = ''g/api/v4/projects/2/repository/commits?all=true&with_stats=true&per_page=100&page=1''
        then Response 500 ''Internal Server Error'' []
      else healthy u)"

definition fixed1 :: "int \<Rightarrow> string" where
  "fixed1 ms = ''1.5''"

definition demo_clock :: clock where
  "demo_clock = \<lparr>start_now = 0, start_iso = ''2024-01-01T00:00:00.000Z'', end_now = 1500,
                 seconds_toFixed1 = fixed1\<rparr>"

definition flaky :: "string \<Rightarrow> response" where
  "flaky u =
     (if u = ''g/items?per_page=100&page=1'' then Response 200 ''OK'' [sample_record]
      else Response 503 ''Service Unavailable'' [])"

definition flaky_env :: env where
  "flaky_env = \<lparr>GITLAB_URL = ''g'', fetch = flaky\<rparr>"

definition healthy_env :: env where
  "healthy_env = \<lparr>GITLAB_URL = ''g'', fetch = healthy\<rparr>"

definition broken_env :: env where
  "broken_env = \<lparr>GITLAB_URL = ''g'', fetch = broken\<rparr>"

definition fresh :: world where
  "fresh = \<lparr>db = Some empty_store, trace = []\<rparr>"

definition healthy_events :: "event list" where
  "healthy_events =
    [Fetch ''g/api/v4/projects?membership=true&per_page=100&page=1'',
     Fetch ''g/api/v4/projects?membership=true&per_page=100&page=2'',
     ConsoleLog ''[gitlab-sync] Found 1 projects'',
     ConsoleLog ''[gitlab-sync] --- team/app (id=1) ---'',
     UpdateOne ''projects'' [(''project_id'', JNum 1)] (project_doc project1),
     ConsoleLog ''[gitlab-sync]   project saved'',
     Fetch ''g/api/v4/projects/1/members/all?per_page=100&page=1'',
     Fetch ''g/api/v4/projects/1/members/all?per_page=100&page=2'',
     BulkWrite ''members'' [member_op (JNum 1) member10],
     ConsoleLog ''[gitlab-sync]   1 members'',
     Fetch ''g/api/v4/projects/1/repository/commits?all=true&with_stats=true&per_page=100&page=1'',
     Fetch ''g/api/v4/projects/1/repository/commits?all=true&with_stats=true&per_page=100&page=2'',
     BulkWrite ''commits'' [commit_op (JNum 1) commit_abc],
     ConsoleLog ''[gitlab-sync]   1 commits'',
     Fetch ''g/api/v4/projects/1/merge_requests?state=all&per_page=100&page=1'',
     Fetch ''g/api/v4/projects/1/merge_requests?state=all&per_page=100&page=2'',
     BulkWrite ''merge_requests'' [mr_op (JNum 1) (mr7 ''merged'')],
     ConsoleLog ''[gitlab-sync]   1 merge requests'',
     Fetch ''g/api/v4/projects/1/issues?state=all&per_page=100&page=1'',
     ConsoleLog ''[gitlab-sync]   0 issues'']"

definition archive_store :: database where
  "archive_store c =
     (if c = ''members'' then
        [[(''_id'', JStr ''m1''), (''project_id'', JNum 9), (''user_id'', JNum 10),
          (''username'', JStr ''ann'')]]
      else [])"

definition down_remote :: "string \<Rightarrow> response" where
  "down_remote u = Response 500 ''Internal Server Error'' []"

definition down_env :: env where
  "down_env = \<lparr>GITLAB_URL = ''g'', fetch = down_remote\<rparr>"

definition down_world :: world where
  "down_world =
     \<lparr>db = Some empty_store,
      trace = [ConsoleLog ''[gitlab-sync] Starting sync at 2024-01-01T00:00:00.000Z'',
               Fetch ''g/api/v4/projects?membership=true&per_page=100&page=1'',
               ConsoleError [''[gitlab-sync] Sync failed:'',
                             ''GitLab API error: 500 Internal Server Error for g/api/v4/projects'']]\<rparr>"

definition project1_events :: "event list" where
  "project1_events =
    [ConsoleLog ''[gitlab-sync] --- team/app (id=1) ---'',
     UpdateOne ''projects'' [(''project_id'', JNum 1)] (project_doc project1),
     ConsoleLog ''[gitlab-sync]   project saved'',
     Fetch ''g/api/v4/projects/1/members/all?per_page=100&page=1'',
     Fetch ''g/api/v4/projects/1/members/all?per_page=100&page=2'',
     BulkWrite ''members'' [member_op (JNum 1) member10],
     ConsoleLog ''[gitlab-sync]   1 members'',
     Fetch ''g/api/v4/projects/1/repository/commits?all=true&with_stats=true&per_page=100&page=1'',
     Fetch ''g/api/v4/projects/1/repository/commits?all=true&with_stats=true&per_page=100&page=2'',
     BulkWrite ''commits'' [commit_op (JNum 1) commit_abc],
     ConsoleLog ''[gitlab-sync]   1 commits'',
     Fetch ''g/api/v4/projects/1/merge_requests?state=all&per_page=100&page=1'',
     Fetch ''g/api/v4/projects/1/merge_requests?state=all&per_page=100&page=2'',
     BulkWrite ''merge_requests'' [mr_op (JNum 1) (mr7 ''merged'')],
     ConsoleLog ''[gitlab-sync]   1 merge requests'',
     Fetch ''g/api/v4/projects/1/issues?state=all&per_page=100&page=1'',
     ConsoleLog ''[gitlab-sync]   0 issues'']"

definition project2_events :: "event list" where
  "project2_events =
    [ConsoleLog ''[gitlab-sync] --- team/lib (id=2) ---'',
     UpdateOne ''projects'' [(''project_id'', JNum 2)] (project_doc project2),
     ConsoleLog ''[gitlab-sync]   project saved'',
     Fetch ''g/api/v4/projects/2/members/all?per_page=100&page=1'',
     ConsoleLog ''[gitlab-sync]   0 members'',
     Fetch ''g/api/v4/projects/2/repository/commits?all=true&with_stats=true&per_page=100&page=1'']"

definition error_500 :: error where
  "error_500 =
     Error ''GitLab API error: 500 Internal Server Error for g/api/v4/projects/2/repository/commits''"

definition broken_listing :: "event list" where
  "broken_listing =
    [Fetch ''g/api/v4/projects?membership=true&per_page=100&page=1'',
     Fetch ''g/api/v4/projects?membership=true&per_page=100&page=2'',
     ConsoleLog ''[gitlab-sync] Found 2 projects'']"

definition error_503 :: "string \<Rightarrow> error" where
  "error_503 url = Error (''GitLab API error: 503 Service Unavailable for '' @ url)"

definition opened_store :: database where
  "opened_store c =
     (if c = ''merge_requests'' then
        [[(''_id'', JStr ''x1''), (''project_id'', JNum 1), (''iid'', JNum 7),
          (''title'', JStr ''fix''), (''state'', JStr ''opened''), (''reviewed'', JBool True)]]
      else [])"

definition opened_world :: world where
  "opened_world = \<lparr>db = Some opened_store, trace = []\<rparr>"

definition merged_doc :: doc where
  "merged_doc =
     [(''_id'', JStr ''x1''), (''project_id'', JNum 1), (''iid'', JNum 7),
      (''title'', JStr ''fix''), (''state'', JStr ''merged''), (''reviewed'', JBool True),
      (''author_username'', JNull), (''author_name'', JNull), (''created_at'', JNull),
      (''merged_at'', JNull), (''closed_at'', JNull), (''source_branch'', JNull),
      (''target_branch'', JNull), (''merge_commit_sha'', JNull)]"

definition late :: "string \<Rightarrow> response" where
  "late u =
     (if u = ''g/api/v4/projects?membership=true&per_page=100&page=1''
        then Response 200 ''OK'' [project1, project2]
      else if u = ''g/api/v4/projects/2/merge_requests?state=all&per_page=100&page=1''
        then Response 200 ''OK'' [mr7 ''opened'']
      else if u = ''g/api/v4/projects/2/issues?state=all&per_page=100&page=1''
        then Response 500 ''Internal Server Error'' []
      else healthy u)"

definition late_env :: env where
  "late_env = \<lparr>GITLAB_URL = ''g'', fetch = late\<rparr>"

definition late_events :: "event list" where
  "late_events =
    [ConsoleLog ''[gitlab-sync] --- team/lib (id=2) ---'',
     UpdateOne ''projects'' [(''project_id'', JNum 2)] (project_doc project2),
     ConsoleLog ''[gitlab-sync]   project saved'',
     Fetch ''g/api/v4/projects/2/members/all?per_page=100&page=1'',
     ConsoleLog ''[gitlab-sync]   0 members'',
     Fetch ''g/api/v4/projects/2/repository/commits?all=true&with_stats=true&per_page=100&page=1'',
     ConsoleLog ''[gitlab-sync]   0 commits'',
     Fetch ''g/api/v4/projects/2/merge_requests?state=all&per_page=100&page=1'',
     Fetch ''g/api/v4/projects/2/merge_requests?state=all&per_page=100&page=2'',
     BulkWrite ''merge_requests'' [mr_op (JNum 2) (mr7 ''opened'')],
     ConsoleLog ''[gitlab-sync]   1 merge requests'',
     Fetch ''g/api/v4/projects/2/issues?state=all&per_page=100&page=1'']"

definition late_world :: world where
  "late_world =
     \<lparr>db = Some (replay (project1_events @ late_events) empty_store),
      trace = ConsoleLog ''[gitlab-sync] Starting sync at 2024-01-01T00:00:00.000Z'' #
        broken_listing @ project1_events @ late_events @
        [ConsoleError [''[gitlab-sync] Sync failed:'',
           ''GitLab API error: 500 Internal Server Error for g/api/v4/projects/2/issues'']]\<rparr>"

section \<open>Algebra of upserts\<close>

lemma update_commute:
  "k \<noteq> k' \<Longrightarrow> k \<in> fst ` set al \<Longrightarrow>
   AList.update k v (AList.update k' v' al) = AList.update k' v' (AList.update k v al)"
  by (induction al) auto

lemma map_of_set_fields:
  "distinct (map fst fs) \<Longrightarrow> map_of (set_fields fs d) k =
     (case map_of fs k of None \<Rightarrow> map_of d k | Some v \<Rightarrow> Some v)"
proof (induction fs d rule: set_fields.induct)
  case (1 d)
  then show ?case by simp
next
  case (2 f v fs d)
  then have "map_of fs f = None"
    by (simp add: map_of_eq_None_iff)
  with 2 show ?case
    by (auto simp: AList.update_conv' split: option.splits)
qed

lemma update_set_fields:
  "a \<notin> fst ` set G \<Longrightarrow> a \<in> fst ` set d \<Longrightarrow>
   AList.update a w (set_fields G d) = set_fields G (AList.update a w d)"
proof (induction G d rule: set_fields.induct)
  case (1 d)
  then show ?case by simp
next
  case (2 f v fs d)
  then have ne: "a \<noteq> f" and nin: "a \<notin> fst ` set fs" by auto
  have mem: "a \<in> fst ` set (AList.update f v d)"
    using 2 by (simp add: AList.dom_update)
  have "AList.update a w (set_fields ((f, v) # fs) d) =
        set_fields fs (AList.update a w (AList.update f v d))"
    using 2 nin mem by simp
  also have "AList.update a w (AList.update f v d) = AList.update f v (AList.update a w d)"
    using ne "2.prems"(2) by (rule update_commute)
  finally show ?case by simp
qed

lemma set_fields_absorb:
  "map fst F = map fst G \<Longrightarrow> distinct (map fst F) \<Longrightarrow>
   set_fields F (set_fields G d) = set_fields F d"
proof (induction F arbitrary: G d)
  case Nil
  then show ?case by simp
next
  case (Cons p F)
  obtain a w where p: "p = (a, w)" by (cases p)
  from Cons.prems obtain v G' where G: "G = (a, v) # G'" and keys: "map fst F = map fst G'"
    by (cases G) (auto simp: p)
  have dF: "distinct (map fst F)" and "a \<notin> set (map fst F)"
    using Cons.prems(2) by (simp_all add: p)
  then have notin: "a \<notin> fst ` set G'"
    using keys by simp
  have "set_fields (p # F) (set_fields G d) =
        set_fields F (AList.update a w (set_fields G' (AList.update a v d)))"
    by (simp add: p G)
  also have "\<dots> = set_fields F (set_fields G' (AList.update a w (AList.update a v d)))"
    using notin by (simp add: update_set_fields AList.dom_update)
  also have "\<dots> = set_fields F (set_fields G' (AList.update a w d))"
    by simp
  also have "\<dots> = set_fields F (AList.update a w d)"
    using Cons.IH [OF keys dF] .
  finally show ?case by (simp add: p)
qed

lemma matches_iff:
  assumes "distinct (map fst flt)"
  shows "matches flt d \<longleftrightarrow> (\<forall>f\<in>set (map fst flt). map_of d f = map_of flt f)"
proof
  assume m: "matches flt d"
  show "\<forall>f\<in>set (map fst flt). map_of d f = map_of flt f"
  proof
    fix f assume "f \<in> set (map fst flt)"
    then obtain v where fv: "(f, v) \<in> set flt" by auto
    with m have "map_of d f = Some v" by (auto simp: matches_def list_all_iff)
    moreover from fv assms have "map_of flt f = Some v" by simp
    ultimately show "map_of d f = map_of flt f" by simp
  qed
next
  assume a: "\<forall>f\<in>set (map fst flt). map_of d f = map_of flt f"
  show "matches flt d"
    unfolding matches_def list_all_iff
  proof (clarify)
    fix f v assume fv: "(f, v) \<in> set flt"
    with assms have "map_of flt f = Some v" by simp
    moreover from fv have "f \<in> set (map fst flt)" by force
    then have "map_of d f = map_of flt f" using a by blast
    ultimately show "map_of d f = Some v" by simp
  qed
qed

lemma alist_eqI:
  "map fst xs = map fst ys \<Longrightarrow> distinct (map fst xs) \<Longrightarrow>
   (\<forall>k\<in>set (map fst xs). map_of xs k = map_of ys k) \<Longrightarrow> xs = ys"
proof (induction xs arbitrary: ys)
  case Nil
  then show ?case by simp
next
  case (Cons x xs)
  then obtain y ys' where ys: "ys = y # ys'" by (cases ys) auto
  from Cons.prems(1) have k: "fst x = fst y" and ks: "map fst xs = map fst ys'"
    by (simp_all add: ys)
  from Cons.prems(3) have "map_of (x # xs) (fst x) = map_of ys (fst x)" by simp
  then have "snd x = snd y" by (simp add: ys k)
  with k have xy: "x = y" by (simp add: prod_eq_iff)
  have "\<forall>k\<in>set (map fst xs). map_of xs k = map_of ys' k"
  proof
    fix k assume kin: "k \<in> set (map fst xs)"
    with Cons.prems(2) have "k \<noteq> fst x" by force
    moreover have "map_of (x # xs) k = map_of ys k"
      by (rule Cons.prems(3)[rule_format]) (use kin in simp)
    ultimately show "map_of xs k = map_of ys' k" by (simp add: ys xy[symmetric])
  qed
  with Cons.IH [OF ks] Cons.prems(2) have "xs = ys'" by simp
  with xy ys show ?case by simp
qed

lemma matches_key_tuple:
  assumes "wf_op keys names u"
  shows "matches (op_filter u) d \<longleftrightarrow> key_tuple keys d = key_tuple keys (op_filter u)"
  using assms by (auto simp: wf_op_def matches_iff key_tuple_def)

lemma key_tuple_set_fields:
  assumes "wf_op keys names u"
  shows "key_tuple keys (set_fields (op_set u) d) = key_tuple keys (op_filter u)"
proof -
  have "map_of (set_fields (op_set u) d) f = map_of (op_filter u) f" if "f \<in> set keys" for f
  proof -
    from assms that have eq: "map_of (op_set u) f = map_of (op_filter u) f"
      by (simp add: wf_op_def list_all_iff)
    from assms that have "f \<in> fst ` set (op_filter u)"
      by (metis wf_op_def set_map)
    then obtain v where "map_of (op_filter u) f = Some v"
      by (metis domD dom_map_of_conv_image_fst)
    with eq assms show ?thesis
      by (simp add: map_of_set_fields wf_op_def)
  qed
  then show ?thesis by (simp add: key_tuple_def)
qed

lemma matches_self:
  "wf_op keys names u \<Longrightarrow> matches (op_filter u) (set_fields (op_set u) d)"
  by (simp add: matches_key_tuple key_tuple_set_fields)

lemma filter_eqI:
  assumes "wf_op keys names u" "wf_op keys names u'"
    and "key_tuple keys (op_filter u) = key_tuple keys (op_filter u')"
  shows "op_filter u = op_filter u'"
proof (rule alist_eqI)
  show "map fst (op_filter u) = map fst (op_filter u')"
    using assms by (simp add: wf_op_def)
  show "distinct (map fst (op_filter u))"
    using assms by (simp add: wf_op_def)
  show "\<forall>k\<in>set (map fst (op_filter u)). map_of (op_filter u) k = map_of (op_filter u') k"
    using assms by (simp add: wf_op_def key_tuple_def)
qed

lemma matches_other:
  assumes "wf_op keys names u" "wf_op keys names u'" "op_filter u \<noteq> op_filter u'"
    and "matches (op_filter u') d"
  shows "\<not> matches (op_filter u) d"
  using assms filter_eqI [of keys names u u'] by (auto simp: matches_key_tuple)

lemma set_fields_twice:
  assumes "wf_op keys names u" "wf_op keys names u'"
  shows "set_fields (op_set u) (set_fields (op_set u') d) = set_fields (op_set u) d"
  using assms by (intro set_fields_absorb) (simp_all add: wf_op_def)

lemma upsert_absorb:
  assumes "wf_op keys names u" "wf_op keys names u'" "op_filter u = op_filter u'"
  shows "upsert u (upsert u' c) = upsert u c"
proof (induction c)
  case Nil
  have "matches (op_filter u) (set_fields (op_set u') (op_filter u'))"
    using assms matches_self [of keys names u'] by simp
  then show ?case
    using assms set_fields_twice [OF assms(1,2)] by simp
next
  case (Cons d c)
  have "matches (op_filter u) (set_fields (op_set u') d)"
    using assms matches_self [of keys names u'] by simp
  then show ?case
    using Cons assms set_fields_twice [OF assms(1,2)] by simp
qed

lemma upsert_commute:
  assumes "wf_op keys names u" "wf_op keys names u'" "op_filter u \<noteq> op_filter u'"
    and "list_ex (matches (op_filter u)) c"
  shows "upsert u (upsert u' c) = upsert u' (upsert u c)"
  using assms(4)
proof (induction c)
  case Nil
  then show ?case by simp
next
  case (Cons d c)
  have n1: "\<not> matches (op_filter u) (set_fields (op_set u') x)" for x
    using matches_other [OF assms(1,2,3)] matches_self [OF assms(2)] by blast
  have n2: "\<not> matches (op_filter u') (set_fields (op_set u) x)" for x
    using matches_other [OF assms(2,1)] assms(3) matches_self [OF assms(1)] by metis
  show ?case
  proof (cases "matches (op_filter u) d")
    case True
    then have "\<not> matches (op_filter u') d"
      using matches_other [OF assms(2,1)] assms(3) by metis
    with True n2 show ?thesis by simp
  next
    case False
    show ?thesis
    proof (cases "matches (op_filter u') d")
      case True
      with False n1 show ?thesis by simp
    next
      case False': False
      from False Cons.prems have "list_ex (matches (op_filter u)) c" by simp
      with Cons.IH False False' show ?thesis by simp
    qed
  qed
qed

lemma upsert_present_self:
  "wf_op keys names u \<Longrightarrow> list_ex (matches (op_filter u)) (upsert u c)"
  by (induction c) (simp_all add: matches_self)

lemma upsert_present_other:
  assumes "wf_op keys names u" "wf_op keys names u'"
    and "list_ex (matches (op_filter u)) c"
  shows "list_ex (matches (op_filter u)) (upsert u' c)"
proof (cases "op_filter u = op_filter u'")
  case True
  then show ?thesis using upsert_present_self [OF assms(2)] by simp
next
  case False
  show ?thesis
    using assms(3)
  proof (induction c)
    case Nil
    then show ?case by simp
  next
    case (Cons d c)
    then show ?case
      using matches_other [OF assms(2,1)] False by (cases "matches (op_filter u) d") auto
  qed
qed

lemma fold_upsert_present:
  assumes "wf_op keys names u" "list_all (wf_op keys names) ops"
    and "list_ex (matches (op_filter u)) c"
  shows "list_ex (matches (op_filter u)) (fold upsert ops c)"
  using assms(2,3)
  by (induction ops arbitrary: c) (simp_all add: upsert_present_other [OF assms(1)])

lemma fold_upsert_absorb:
  assumes "wf_op keys names u" "list_all (wf_op keys names) ops"
    and "list_ex (matches (op_filter u)) c"
    and "op_filter u \<in> op_filter ` set ops"
  shows "fold upsert ops (upsert u c) = fold upsert ops c"
  using assms(2,3,4)
proof (induction ops arbitrary: c)
  case Nil
  then show ?case by simp
next
  case (Cons p ops)
  then have wp: "wf_op keys names p" and wops: "list_all (wf_op keys names) ops" by simp_all
  show ?case
  proof (cases "op_filter p = op_filter u")
    case True
    then show ?thesis
      using upsert_absorb [OF wp assms(1)] by simp
  next
    case False
    then have "op_filter u \<in> op_filter ` set ops" using Cons.prems(3) by auto
    moreover have "list_ex (matches (op_filter u)) (upsert p c)"
      using upsert_present_other [OF assms(1) wp Cons.prems(2)] .
    moreover have "upsert p (upsert u c) = upsert u (upsert p c)"
      using upsert_commute [OF assms(1) wp _ Cons.prems(2)] False by simp
    ultimately show ?thesis
      using Cons.IH [OF wops] by simp
  qed
qed

lemma fold_upsert_commute:
  assumes "wf_op keys names u" "list_all (wf_op keys names) ops"
    and "list_ex (matches (op_filter u)) c"
    and "op_filter u \<notin> op_filter ` set ops"
  shows "fold upsert ops (upsert u c) = upsert u (fold upsert ops c)"
  using assms(2,3,4)
proof (induction ops arbitrary: c)
  case Nil
  then show ?case by simp
next
  case (Cons p ops)
  then have wp: "wf_op keys names p" and wops: "list_all (wf_op keys names) ops" by simp_all
  from Cons.prems(3) have ne: "op_filter u \<noteq> op_filter p" and nin: "op_filter u \<notin> op_filter ` set ops"
    by auto
  have "upsert p (upsert u c) = upsert u (upsert p c)"
    using upsert_commute [OF assms(1) wp ne Cons.prems(2)] by simp
  moreover have "list_ex (matches (op_filter u)) (upsert p c)"
    using upsert_present_other [OF assms(1) wp Cons.prems(2)] .
  ultimately show ?case
    using Cons.IH [OF wops _ nin] by simp
qed

lemma fold_upsert_idem:
  assumes "list_all (wf_op keys names) ops"
  shows "fold upsert ops (fold upsert ops c) = fold upsert ops c"
  using assms
proof (induction ops arbitrary: c)
  case Nil
  then show ?case by simp
next
  case (Cons u ops)
  then have wu: "wf_op keys names u" and wops: "list_all (wf_op keys names) ops" by simp_all
  let ?S = "upsert u c"
  let ?T = "fold upsert ops ?S"
  have pS: "list_ex (matches (op_filter u)) ?S" using upsert_present_self [OF wu] .
  have pT: "list_ex (matches (op_filter u)) ?T" using fold_upsert_present [OF wu wops pS] .
  have "fold upsert ops (upsert u ?T) = ?T"
  proof (cases "op_filter u \<in> op_filter ` set ops")
    case True
    then show ?thesis
      using fold_upsert_absorb [OF wu wops pT] Cons.IH [OF wops] by simp
  next
    case False
    have "upsert u ?T = fold upsert ops (upsert u ?S)"
      using fold_upsert_commute [OF wu wops pS False] by simp
    also have "\<dots> = ?T" using upsert_absorb [OF wu wu] by simp
    finally show ?thesis using Cons.IH [OF wops] by simp
  qed
  then show ?case by simp
qed

lemma key_tuples_upsert:
  assumes "wf_op keys names u"
  shows "map (key_tuple keys) (upsert u c) =
     (if list_ex (matches (op_filter u)) c then map (key_tuple keys) c
      else map (key_tuple keys) c @ [key_tuple keys (op_filter u)])"
proof (induction c)
  case Nil
  then show ?case using key_tuple_set_fields [OF assms] by simp
next
  case (Cons d c)
  show ?case
  proof (cases "matches (op_filter u) d")
    case True
    then have "key_tuple keys (set_fields (op_set u) d) = key_tuple keys d"
      using key_tuple_set_fields [OF assms] matches_key_tuple [OF assms] by simp
    with True show ?thesis by simp
  next
    case False
    with Cons show ?thesis by simp
  qed
qed

lemma unique_upsert:
  assumes "wf_op keys names u" "unique_keys keys c"
  shows "unique_keys keys (upsert u c)"
proof (cases "list_ex (matches (op_filter u)) c")
  case True
  with assms show ?thesis by (simp add: unique_keys_def key_tuples_upsert)
next
  case False
  then have "key_tuple keys (op_filter u) \<notin> set (map (key_tuple keys) c)"
    using matches_key_tuple [OF assms(1)] by (auto simp: list_ex_iff)
  with False assms show ?thesis by (simp add: unique_keys_def key_tuples_upsert)
qed

lemma unique_fold_upsert:
  "list_all (wf_op keys names) ops \<Longrightarrow> unique_keys keys c \<Longrightarrow>
   unique_keys keys (fold upsert ops c)"
proof (induction ops arbitrary: c)
  case Nil
  then show ?case by simp
next
  case (Cons u ops)
  then have "unique_keys keys (upsert u c)"
    using unique_upsert [of keys names u c] by simp
  with Cons show ?case by simp
qed

lemma distinct_map_filter_le1:
  "distinct (map f xs) \<Longrightarrow> length (filter (\<lambda>x. f x = y) xs) \<le> 1"
proof (induction xs)
  case Nil
  then show ?case by simp
next
  case (Cons x xs)
  show ?case
  proof (cases "f x = y")
    case True
    from Cons.prems have "f x \<notin> f ` set xs" by simp
    with True have "\<forall>z\<in>set xs. f z \<noteq> y" by blast
    then have "filter (\<lambda>x. f x = y) xs = []"
      by (simp add: filter_empty_conv)
    with True show ?thesis by simp
  next
    case False
    with Cons show ?thesis by simp
  qed
qed

lemma unique_single_match:
  assumes "wf_op keys names u" "unique_keys keys c" "d \<in> set c" "matches (op_filter u) d"
  shows "filter (matches (op_filter u)) c = [d]"
proof -
  have eq: "matches (op_filter u) = (\<lambda>x. key_tuple keys x = key_tuple keys (op_filter u))"
    using matches_key_tuple [OF assms(1)] by (simp add: fun_eq_iff)
  have "length (filter (matches (op_filter u)) c) \<le> 1"
    unfolding eq using assms(2) unfolding unique_keys_def by (rule distinct_map_filter_le1)
  moreover have "d \<in> set (filter (matches (op_filter u)) c)"
    using assms(3,4) by simp
  ultimately show ?thesis
    by (cases "filter (matches (op_filter u)) c") (auto simp: le_Suc_eq)
qed

lemma carries_set_fields:
  assumes "wf_op keys names u"
  shows "carries u (set_fields (op_set u) d)"
proof -
  have "map_of (set_fields (op_set u) d) f = Some v" if "(f, v) \<in> set (op_set u)" for f v
  proof -
    from assms have dist: "distinct (map fst (op_set u))" by (simp add: wf_op_def)
    with that have "map_of (op_set u) f = Some v" by simp
    with dist show ?thesis by (simp add: map_of_set_fields)
  qed
  then show ?thesis
    using matches_self [OF assms] by (auto simp: carries_def list_all_iff)
qed

lemma carries_upsert:
  "wf_op keys names u \<Longrightarrow> list_ex (carries u) (upsert u c)"
  by (induction c) (simp_all add: carries_set_fields)

lemma untouched_upsert:
  "d \<in> set c \<Longrightarrow> \<not> matches (op_filter u) d \<Longrightarrow> d \<in> set (upsert u c)"
  by (induction c) auto

lemma carries_fold_upsert:
  assumes "wf_op keys names u" "list_all (wf_op keys names) ops"
    and "\<forall>u'\<in>set ops. op_filter u' \<noteq> op_filter u"
    and "d \<in> set c" "carries u d"
  shows "d \<in> set (fold upsert ops c)"
  using assms(2,3,4)
proof (induction ops arbitrary: c)
  case Nil
  then show ?case by simp
next
  case (Cons p ops)
  then have wp: "wf_op keys names p" and ne: "op_filter p \<noteq> op_filter u" by simp_all
  have "\<not> matches (op_filter p) d"
    using matches_other [OF wp assms(1) ne] assms(5) by (simp add: carries_def)
  with Cons.prems(3) have "d \<in> set (upsert p c)" by (rule untouched_upsert)
  with Cons show ?case by simp
qed

lemma last_write_wins:
  assumes "list_all (wf_op keys names) (pre @ u # post)"
    and "\<forall>u'\<in>set post. op_filter u' \<noteq> op_filter u"
  shows "\<exists>d\<in>set (fold upsert (pre @ u # post) c). carries u d"
proof -
  from assms(1) have wu: "wf_op keys names u" and wpost: "list_all (wf_op keys names) post"
    by simp_all
  obtain d where d: "d \<in> set (upsert u (fold upsert pre c))" "carries u d"
    using carries_upsert [OF wu] by (auto simp: list_ex_iff)
  then have "d \<in> set (fold upsert post (upsert u (fold upsert pre c)))"
    using carries_fold_upsert [OF wu wpost assms(2)] by simp
  with d(2) show ?thesis by auto
qed

lemma frame_set_fields:
  "g \<notin> fst ` set F \<Longrightarrow> map_of (set_fields F d) g = map_of d g"
  by (induction F d rule: set_fields.induct) (auto simp: AList.update_conv')

lemma frame_upsert:
  "length c \<le> length (upsert u c) \<and>
   (\<forall>i<length c. \<forall>g. g \<notin> fst ` set (op_set u) \<longrightarrow>
      map_of (upsert u c ! i) g = map_of (c ! i) g)"
proof (induction c)
  case Nil
  then show ?case by simp
next
  case (Cons d c)
  then show ?case
    by (auto simp: frame_set_fields nth_Cons split: nat.splits)
qed

lemma frame_fold_upsert:
  assumes "list_all (\<lambda>u. set (map fst (op_set u)) \<subseteq> set names) ops"
  shows "length c \<le> length (fold upsert ops c) \<and>
   (\<forall>i<length c. \<forall>g. g \<notin> set names \<longrightarrow> map_of (fold upsert ops c ! i) g = map_of (c ! i) g)"
  using assms
proof (induction ops arbitrary: c)
  case Nil
  then show ?case by simp
next
  case (Cons u ops)
  then have sub: "fst ` set (op_set u) \<subseteq> set names"
    and rest: "list_all (\<lambda>u. set (map fst (op_set u)) \<subseteq> set names) ops" by simp_all
  have step: "length c \<le> length (upsert u c)"
    "\<And>i g. i < length c \<Longrightarrow> g \<notin> set names \<Longrightarrow> map_of (upsert u c ! i) g = map_of (c ! i) g"
    using frame_upsert [of c u] sub by blast+
  have ih: "length (upsert u c) \<le> length (fold upsert ops (upsert u c))"
    "\<And>i g. i < length (upsert u c) \<Longrightarrow> g \<notin> set names \<Longrightarrow>
       map_of (fold upsert ops (upsert u c) ! i) g = map_of (upsert u c ! i) g"
    using Cons.IH [OF rest, of "upsert u c"] by auto
  show ?case
    using step ih by (auto simp: less_le_trans)
qed

section \<open>Traces and the paginator\<close>

lemma performs_simps [simp]:
  "performs [] w = w"
  "performs (ev # evs) w = performs evs (perform ev w)"
  "performs (evs @ evs') w = performs evs' (performs evs w)"
  by (simp_all add: performs_def)

lemma replay_simps [simp]:
  "replay [] s = s"
  "replay (ev # evs) s = replay evs (effect ev s)"
  "replay (evs @ evs') s = replay evs' (replay evs s)"
  by (simp_all add: replay_def)

lemma trace_performs [simp]: "trace (performs evs w) = trace w @ evs"
  by (induction evs arbitrary: w) (simp_all add: perform_def)

lemma db_performs: "db (performs evs w) = map_option (replay evs) (db w)"
proof (induction evs arbitrary: w)
  case Nil
  then show ?case by (cases "db w") simp_all
next
  case (Cons ev evs)
  then show ?case by (cases "db w") (simp_all add: perform_def)
qed

lemma connected_performs [simp]: "db (performs evs w) = None \<longleftrightarrow> db w = None"
  by (simp add: db_performs)

lemma connected_perform [simp]: "db (perform ev w) = None \<longleftrightarrow> db w = None"
  by (simp add: perform_def)

lemma paginate_step_ok:
  assumes "fetch e (page_url url params page) = Response st txt data" "ok st" "data \<noteq> []"
  shows "paginate e url (AList.update ''page'' (JNum q) (AList.update ''per_page'' (JNum 100) params))
           page results w =
         paginate e url (AList.update ''page'' (JNum q) (AList.update ''per_page'' (JNum 100) params))
           (page + 1) (results @ data) (perform (Fetch (page_url url params page)) w)"
  using assms unfolding page_url_def
  by (subst paginate.simps) (simp add: Let_def)

lemma paginate_step_empty:
  assumes "fetch e (page_url url params page) = Response st txt []" "ok st"
  shows "paginate e url (AList.update ''page'' (JNum q) (AList.update ''per_page'' (JNum 100) params))
           page results w =
         Some (Inr results, perform (Fetch (page_url url params page)) w)"
  using assms unfolding page_url_def
  by (subst paginate.simps) (simp add: Let_def)

lemma paginate_step_error:
  assumes "fetch e (page_url url params page) = Response st txt data" "\<not> ok st"
  shows "paginate e url (AList.update ''page'' (JNum q) (AList.update ''per_page'' (JNum 100) params))
           page results w =
         Some (Inl (api_error st txt url), perform (Fetch (page_url url params page)) w)"
  using assms unfolding page_url_def
  by (subst paginate.simps) (simp add: Let_def api_error_def)

lemma paginate_prefix:
  assumes "\<forall>i<length pages. pages ! i \<noteq> [] \<and>
             (\<exists>st txt. ok st \<and> fetch e (page_url url params (page + int i)) = Response st txt (pages ! i))"
  shows "paginate e url (AList.update ''page'' (JNum q) (AList.update ''per_page'' (JNum 100) params))
           page results w =
         paginate e url (AList.update ''page'' (JNum q) (AList.update ''per_page'' (JNum 100) params))
           (page + int (length pages)) (results @ concat pages)
           (performs (map (\<lambda>i. Fetch (page_url url params (page + int i))) [0..<length pages]) w)"
  using assms
proof (induction pages arbitrary: page results w)
  case Nil
  then show ?case by simp
next
  case (Cons p pages)
  from Cons.prems [rule_format, of 0] obtain st tx where
    first: "p \<noteq> []" "ok st" "fetch e (page_url url params page) = Response st tx p"
    by auto
  have rest: "\<forall>i<length pages. pages ! i \<noteq> [] \<and>
      (\<exists>st txt. ok st \<and> fetch e (page_url url params (page + 1 + int i)) = Response st txt (pages ! i))"
  proof (intro allI impI)
    fix i assume "i < length pages"
    then show "pages ! i \<noteq> [] \<and>
      (\<exists>st txt. ok st \<and> fetch e (page_url url params (page + 1 + int i)) = Response st txt (pages ! i))"
      using Cons.prems [rule_format, of "Suc i"] by (simp add: ac_simps)
  qed
  have shift: "map (\<lambda>i. Fetch (page_url url params (page + int i))) [0..<length (p # pages)] =
    Fetch (page_url url params page) #
    map (\<lambda>i. Fetch (page_url url params (page + 1 + int i))) [0..<length pages]"
    by (simp add: upt_rec [of 0] map_Suc_upt [symmetric] ac_simps del: upt_Suc)
  show ?case
    unfolding shift
    using paginate_step_ok [OF first(3,2,1)] Cons.IH [OF rest]
    by (simp add: ac_simps)
qed

section \<open>Properties of the mapping functions\<close>

text \<open>
  Claim C6 (commit statistics defaulting). A remote commit record without a statistics
  object (the property \<^verbatim>\<open>stats\<close> is absent or \<^verbatim>\<open>null\<close>) is mapped to a local record with
  \<^verbatim>\<open>additions\<close>, \<^verbatim>\<open>deletions\<close> and \<^verbatim>\<open>total\<close> equal to 0; a record whose statistics object
  carries the three numbers is mapped to a local record with exactly those numbers.
\<close>

theorem commit_stats_defaulting:
  "((map_of c ''stats'' = None \<or> map_of c ''stats'' = Some JNull) \<longrightarrow>
      property (op_set (commit_op pid c)) ''additions'' = JNum 0 \<and>
      property (op_set (commit_op pid c)) ''deletions'' = JNum 0 \<and>
      property (op_set (commit_op pid c)) ''total'' = JNum 0) \<and>
   (map_of c' ''stats'' = Some (JObj s) \<and> map_of s ''additions'' = Some (JNum a) \<and>
    map_of s ''deletions'' = Some (JNum d) \<and> map_of s ''total'' = Some (JNum t) \<longrightarrow>
      property (op_set (commit_op pid c')) ''additions'' = JNum a \<and>
      property (op_set (commit_op pid c')) ''deletions'' = JNum d \<and>
      property (op_set (commit_op pid c')) ''total'' = JNum t)"
  by (auto simp: commit_op_def property_def or_else_def Let_def)

theorem commit_stats_defaulting_witness:
  "property (op_set (commit_op (JNum 5) [(''id'', JStr ''abc'')])) ''additions'' = JNum 0 \<and>
   property (op_set (commit_op (JNum 5) [(''id'', JStr ''abc'')])) ''deletions'' = JNum 0 \<and>
   property (op_set (commit_op (JNum 5) [(''id'', JStr ''abc'')])) ''total'' = JNum 0 \<and>
   property (op_set (commit_op (JNum 5)
      [(''id'', JStr ''abc''),
       (''stats'', JObj [(''additions'', JNum 3), (''deletions'', JNum 1), (''total'', JNum 4)])]))
      ''total'' = JNum 4"
  using commit_stats_defaulting [of "[(''id'', JStr ''abc'')]" "JNum 5"
      "[(''id'', JStr ''abc''),
       (''stats'', JObj [(''additions'', JNum 3), (''deletions'', JNum 1), (''total'', JNum 4)])]"
      "[(''additions'', JNum 3), (''deletions'', JNum 1), (''total'', JNum 4)]" 3 1 4]
  by simp

section \<open>The functions of the service depend on the remote only\<close>

lemma fetch_outcome_Nil [simp]: "fetch_outcome e [] r"
  by (simp add: fetch_outcome_def)

lemma fetch_outcome_append:
  assumes "list_all (succeeded e) evs1" "fetch_outcome e evs2 r"
  shows "fetch_outcome e (evs1 @ evs2) r"
  using assms(2) unfolding fetch_outcome_def
proof (elim disjE exE conjE)
  assume "list_all (succeeded e) evs2"
  with assms(1) show "list_all (succeeded e) (evs1 @ evs2) \<or>
    (\<exists>evs0 u err. evs1 @ evs2 = evs0 @ [Fetch u] \<and> list_all (succeeded e) evs0 \<and>
        r = Inl err \<and> failure e u err)" by simp
next
  fix evs0 u err
  assume "evs2 = evs0 @ [Fetch u]" "list_all (succeeded e) evs0" "r = Inl err" "failure e u err"
  with assms(1) have "evs1 @ evs2 = (evs1 @ evs0) @ [Fetch u] \<and>
     list_all (succeeded e) (evs1 @ evs0) \<and> r = Inl err \<and> failure e u err" by simp
  then show "list_all (succeeded e) (evs1 @ evs2) \<or>
    (\<exists>evs0 u err. evs1 @ evs2 = evs0 @ [Fetch u] \<and> list_all (succeeded e) evs0 \<and>
        r = Inl err \<and> failure e u err)" by blast
qed

lemma fetch_outcome_Cons:
  "succeeded e ev \<Longrightarrow> fetch_outcome e evs r \<Longrightarrow> fetch_outcome e (ev # evs) r"
  using fetch_outcome_append [of e "[ev]" evs r] by simp

lemma fetch_outcome_Inr:
  "fetch_outcome e evs (Inr x) \<Longrightarrow> list_all (succeeded e) evs"
  by (auto simp: fetch_outcome_def)

lemma fetch_outcome_failed:
  "failure e u err \<Longrightarrow> fetch_outcome e [Fetch u] (Inl err)"
  unfolding fetch_outcome_def by (rule disjI2) (rule exI [of _ "[]"], simp)

lemma paginate_tracks_aux:
  "paginate e url params page results w = Some y \<Longrightarrow>
     \<exists>evs. snd y = performs evs w \<and> list_all conforms evs \<and> fetch_outcome e evs (fst y) \<and>
           (\<forall>v. paginate e url params page results v = Some (fst y, performs evs v))"
proof (induction rule: paginate.raw_induct [rotated 1, consumes 1])
  case (1 pag e url params page results w y)
  define target where
    "target = url @ ''?'' @ URLSearchParams_toString (AList.update ''page'' (JNum page) params)"
  note body = "1.hyps" [unfolded Let_def, folded target_def]
  have unf: "paginate e url params page results v =
      (case fetch e target of
         Rejected err \<Rightarrow> Some (Inl err, perform (Fetch target) v)
       | Response st txt data \<Rightarrow>
           if \<not> ok st then Some (Inl (api_error st txt url), perform (Fetch target) v)
           else if length data = 0 then Some (Inr results, perform (Fetch target) v)
           else paginate e url params (page + 1) (results @ data) (perform (Fetch target) v))" for v
    by (subst paginate.simps) (simp add: Let_def target_def api_error_def split: response.splits)
  show ?case
  proof (cases "fetch e target")
    case (Rejected err)
    with body have y: "y = (Inl err, perform (Fetch target) w)" by auto
    have "failure e target err" using Rejected by (simp add: failure_def)
    then have "fetch_outcome e [Fetch target] (Inl err)" by (rule fetch_outcome_failed)
    then show ?thesis
      using Rejected by (intro exI [of _ "[Fetch target]"]) (simp add: y unf)
  next
    case (Response st tx data)
    show ?thesis
    proof (cases "ok st")
      case False
      with body Response have y: "y = (Inl (api_error st tx url), perform (Fetch target) w)"
        by (auto simp: api_error_def)
      have "failure e target (api_error st tx url)"
        using Response False unfolding failure_def target_def by auto
      then have "fetch_outcome e [Fetch target] (Inl (api_error st tx url))"
        by (rule fetch_outcome_failed)
      then show ?thesis
        using Response False by (intro exI [of _ "[Fetch target]"]) (simp add: y unf)
    next
      case True
      then have good: "succeeded e (Fetch target)" using Response by simp
      show ?thesis
      proof (cases "data = []")
        case True
        with body Response \<open>ok st\<close> have y: "y = (Inr results, perform (Fetch target) w)"
          by auto
        have "fetch_outcome e [Fetch target] (Inr results)"
          using good by (simp add: fetch_outcome_def)
        then show ?thesis
          using Response \<open>ok st\<close> True
          by (intro exI [of _ "[Fetch target]"]) (simp add: y unf)
      next
        case False
        with body Response \<open>ok st\<close>
        have "pag e url params (page + 1) (results @ data) (perform (Fetch target) w) = Some y"
          by simp
        from "1.IH" [OF this] obtain evs where evs:
          "snd y = performs evs (perform (Fetch target) w)" "list_all conforms evs"
          "fetch_outcome e evs (fst y)"
          "\<forall>v. paginate e url params (page + 1) (results @ data) v = Some (fst y, performs evs v)"
          by blast
        have "fetch_outcome e (Fetch target # evs) (fst y)"
          using good evs(3) by (rule fetch_outcome_Cons)
        then show ?thesis
          using Response \<open>ok st\<close> False evs
          by (intro exI [of _ "Fetch target # evs"]) (simp add: unf)
      qed
    qed
  qed
qed

lemma tracksI:
  assumes "\<And>w r w'. db w \<noteq> None \<Longrightarrow> f w = Some (r, w') \<Longrightarrow>
     \<exists>evs. w' = performs evs w \<and> list_all conforms evs \<and> fetch_outcome e evs r \<and>
           (\<forall>v. db v \<noteq> None \<longrightarrow> f v = Some (r, performs evs v))"
  shows "tracks e f"
  unfolding tracks_def using assms by blast

lemma tracksD:
  assumes "tracks e f" "db w \<noteq> None" "f w = Some (r, w')"
  shows "\<exists>evs. w' = performs evs w \<and> list_all conforms evs \<and> fetch_outcome e evs r \<and>
           (\<forall>v. db v \<noteq> None \<longrightarrow> f v = Some (r, performs evs v))"
  using assms unfolding tracks_def by blast

lemma tracks_paginate: "tracks e (paginate e url params page results)"
proof (rule tracksI)
  fix w r w'
  assume "paginate e url params page results w = Some (r, w')"
  from paginate_tracks_aux [OF this]
  show "\<exists>evs. w' = performs evs w \<and> list_all conforms evs \<and> fetch_outcome e evs r \<and>
           (\<forall>v. db v \<noteq> None \<longrightarrow> paginate e url params page results v = Some (r, performs evs v))"
    by auto
qed

lemma tracks_paginatedGet: "tracks e (paginatedGet e url params)"
  unfolding paginatedGet_def by (rule tracks_paginate)

lemma tracks_return: "tracks e (\<lambda>w. Some (Inr x, w))"
  by (rule tracksI) (auto intro: exI [of _ "[]"])

lemma tracks_throw: "tracks e (\<lambda>w. Some (Inl err, w))"
  by (rule tracksI) (auto intro: exI [of _ "[]"])

lemma tracks_getDB: "tracks e getDB"
  by (rule tracksI) (auto simp: getDB_def intro!: exI [of _ "[]"] split: option.splits)

lemma tracks_perform:
  assumes "conforms ev" "succeeded e ev" "tracks e f"
  shows "tracks e (\<lambda>w. f (perform ev w))"
proof (rule tracksI)
  fix w r w'
  assume w: "db w \<noteq> None" and run: "f (perform ev w) = Some (r, w')"
  have "db (perform ev w) \<noteq> None" using w by simp
  from tracksD [OF assms(3) this run] obtain evs where evs: "w' = performs evs (perform ev w)"
    "list_all conforms evs" "fetch_outcome e evs r"
    "\<And>v. db v \<noteq> None \<Longrightarrow> f v = Some (r, performs evs v)"
    by blast
  have 1: "w' = performs (ev # evs) w" using evs(1) by simp
  have 2: "list_all conforms (ev # evs)" using evs(2) assms(1) by simp
  have 3: "fetch_outcome e (ev # evs) r"
    using assms(2) evs(3) by (rule fetch_outcome_Cons)
  have 4: "\<forall>v. db v \<noteq> None \<longrightarrow> f (perform ev v) = Some (r, performs (ev # evs) v)"
  proof (intro allI impI)
    fix v :: world assume "db v \<noteq> None"
    then have "db (perform ev v) \<noteq> None" by simp
    from evs(4) [OF this] show "f (perform ev v) = Some (r, performs (ev # evs) v)" by simp
  qed
  from 1 2 3 4
  show "\<exists>evs. w' = performs evs w \<and> list_all conforms evs \<and> fetch_outcome e evs r \<and>
           (\<forall>v. db v \<noteq> None \<longrightarrow> f (perform ev v) = Some (r, performs evs v))"
    by blast
qed

lemma tracks_console_log: "tracks e f \<Longrightarrow> tracks e (\<lambda>w. f (console_log l w))"
  unfolding console_log_def by (rule tracks_perform) simp_all

lemma tracks_andThen:
  assumes "tracks e m" "\<And>x. tracks e (f x)"
  shows "tracks e (\<lambda>w. andThen (m w) f)"
proof (rule tracksI)
  fix w r w'
  assume w: "db w \<noteq> None" and run: "andThen (m w) f = Some (r, w')"
  then obtain r1 w1 where m: "m w = Some (r1, w1)"
    by (cases "m w") (auto simp: andThen_def)
  from tracksD [OF assms(1) w m] obtain evs1 where evs1: "w1 = performs evs1 w"
    "list_all conforms evs1" "fetch_outcome e evs1 r1"
    "\<And>v. db v \<noteq> None \<Longrightarrow> m v = Some (r1, performs evs1 v)"
    by blast
  show "\<exists>evs. w' = performs evs w \<and> list_all conforms evs \<and> fetch_outcome e evs r \<and>
           (\<forall>v. db v \<noteq> None \<longrightarrow> andThen (m v) f = Some (r, performs evs v))"
  proof (cases r1)
    case (Inl err)
    with run m have "r = Inl err" "w' = w1" by (simp_all add: andThen_def)
    moreover have "fetch_outcome e evs1 (Inl err :: error + 'b)"
      using evs1(3) Inl by (auto simp: fetch_outcome_def)
    ultimately show ?thesis
      using evs1 Inl by (intro exI [of _ evs1]) (simp add: andThen_def)
  next
    case (Inr x)
    with run m have "f x w1 = Some (r, w')" by (simp add: andThen_def)
    moreover have "db w1 \<noteq> None" using w evs1(1) by simp
    ultimately obtain evs2 where evs2: "w' = performs evs2 w1"
      "list_all conforms evs2" "fetch_outcome e evs2 r"
      "\<And>v. db v \<noteq> None \<Longrightarrow> f x v = Some (r, performs evs2 v)"
      using tracksD [OF assms(2), of w1 x r w'] by blast
    have "list_all (succeeded e) evs1"
      using evs1(3) Inr by (auto dest: fetch_outcome_Inr)
    then have 3: "fetch_outcome e (evs1 @ evs2) r"
      using evs2(3) by (rule fetch_outcome_append)
    have 1: "w' = performs (evs1 @ evs2) w" using evs1(1) evs2(1) by simp
    have 2: "list_all conforms (evs1 @ evs2)" using evs1(2) evs2(2) by simp
    have 4: "\<forall>v. db v \<noteq> None \<longrightarrow> andThen (m v) f = Some (r, performs (evs1 @ evs2) v)"
    proof (intro allI impI)
      fix v :: world assume v: "db v \<noteq> None"
      then have "db (performs evs1 v) \<noteq> None" by simp
      from evs2(4) [OF this] evs1(4) [OF v] Inr
      show "andThen (m v) f = Some (r, performs (evs1 @ evs2) v)"
        by (simp add: andThen_def)
    qed
    from 1 2 3 4 show ?thesis by blast
  qed
qed

lemma tracks_updateOne:
  "conforming_op c (UpdateOneOp flt d) \<Longrightarrow> tracks e (updateOne c flt d)"
  by (rule tracksI)
    (auto simp: updateOne_def fetch_outcome_def intro!: exI [of _ "[UpdateOne c flt d]"])

lemma tracks_bulkWrite:
  "list_all (conforming_op c) ops \<Longrightarrow> tracks e (bulkWrite c ops)"
  by (rule tracksI)
    (auto simp: bulkWrite_def fetch_outcome_def
      intro: exI [of _ "[BulkWrite c ops]"] exI [of _ "[]"] split: if_splits)

lemma conforming_member_op: "conforming_op ''members'' (member_op pid m)"
  by (simp add: conforming_op_def wf_op_def key_fields_def mapped_fields_def member_op_def
      serialize_op_def serialize_def)

lemma conforming_commit_op: "conforming_op ''commits'' (commit_op pid c)"
  by (simp add: conforming_op_def wf_op_def key_fields_def mapped_fields_def commit_op_def
      serialize_op_def serialize_def Let_def)

lemma conforming_mr_op: "conforming_op ''merge_requests'' (mr_op pid mr)"
  by (simp add: conforming_op_def wf_op_def key_fields_def mapped_fields_def mr_op_def
      serialize_op_def serialize_def Let_def)

lemma conforming_issue_op: "issue_op pid i = Inr u \<Longrightarrow> conforming_op ''issues'' u"
  by (auto simp: conforming_op_def wf_op_def key_fields_def mapped_fields_def issue_op_def
      serialize_op_def serialize_def Let_def split: sum.splits)

lemma conforming_project_doc:
  "conforming_op ''projects''
     (UpdateOneOp [(''project_id'', property (project_doc p) ''project_id'')] (project_doc p))"
  by (simp add: conforming_op_def wf_op_def key_fields_def mapped_fields_def project_doc_def
      serialize_op_def serialize_def property_def)

lemma traverse_all:
  "traverse f xs = Inr ys \<Longrightarrow> (\<And>x y. f x = Inr y \<Longrightarrow> P y) \<Longrightarrow> list_all P ys"
  by (induction xs arbitrary: ys) (auto split: sum.splits)

lemma tracks_if:
  "(b \<Longrightarrow> tracks e f) \<Longrightarrow> (\<not> b \<Longrightarrow> tracks e g) \<Longrightarrow> tracks e (\<lambda>w. if b then f w else g w)"
  by (cases b) simp_all

lemma tracks_syncMembers: "tracks e (syncMembers e pid)"
  unfolding syncMembers_def Let_def
  by (intro tracks_andThen tracks_getDB tracks_paginatedGet)
    (auto intro!: tracks_if tracks_return tracks_andThen tracks_bulkWrite
       simp: list_all_iff conforming_member_op)

lemma tracks_syncCommits: "tracks e (syncCommits e pid)"
  unfolding syncCommits_def Let_def
  by (intro tracks_andThen tracks_getDB tracks_paginatedGet)
    (auto intro!: tracks_if tracks_return tracks_andThen tracks_bulkWrite
       simp: list_all_iff conforming_commit_op)

lemma tracks_syncMergeRequests: "tracks e (syncMergeRequests e pid)"
  unfolding syncMergeRequests_def Let_def
  by (intro tracks_andThen tracks_getDB tracks_paginatedGet)
    (auto intro!: tracks_if tracks_return tracks_andThen tracks_bulkWrite
       simp: list_all_iff conforming_mr_op)

lemma tracks_syncIssues: "tracks e (syncIssues e pid)"
  unfolding syncIssues_def Let_def
proof (intro tracks_andThen tracks_getDB tracks_paginatedGet)
  fix x :: unit and issues :: "obj list"
  show "tracks e (\<lambda>w. if length issues = 0 then Some (Inr 0, w)
          else case traverse (issue_op pid) issues of
                 Inl err \<Rightarrow> Some (Inl err, w)
               | Inr ops \<Rightarrow> andThen (bulkWrite ''issues'' ops w) (\<lambda>_ w. Some (Inr (length ops), w)))"
  proof (cases "traverse (issue_op pid) issues")
    case (Inl err)
    then show ?thesis by (auto intro!: tracks_if tracks_return tracks_throw)
  next
    case (Inr ops)
    then have "list_all (conforming_op ''issues'') ops"
      by (rule traverse_all) (rule conforming_issue_op)
    with Inr show ?thesis
      by (auto intro!: tracks_if tracks_return tracks_andThen tracks_bulkWrite)
  qed
qed

lemma tracks_syncProjects_loop: "tracks e (syncProjects_loop e projects)"
proof (induction projects)
  case Nil
  show ?case by (simp add: tracks_return)
next
  case (Cons project rest)
  have "tracks e (\<lambda>w. syncProjects_loop e (project # rest) w)"
    unfolding syncProjects_loop.simps Let_def
    by (intro tracks_console_log tracks_andThen tracks_updateOne conforming_project_doc
        tracks_syncMembers tracks_syncCommits tracks_syncMergeRequests tracks_syncIssues Cons)
  then show ?case .
qed

lemma tracks_syncProjects: "tracks e (syncProjects e)"
  unfolding syncProjects_def Let_def
  by (intro tracks_andThen tracks_getDB tracks_paginatedGet tracks_console_log
      tracks_syncProjects_loop tracks_return)

section \<open>The paginator protocol\<close>

lemma perform_Fetch: "perform (Fetch u) w = w\<lparr>trace := trace w @ [Fetch u]\<rparr>"
  by (cases "db w") (simp_all add: perform_def)

lemma performs_Fetch:
  "performs (map (\<lambda>i. Fetch (f i)) xs) w = w\<lparr>trace := trace w @ map (\<lambda>i. Fetch (f i)) xs\<rparr>"
  by (induction xs arbitrary: w) (simp_all add: perform_Fetch)

lemma page_url_plain:
  assumes "''page'' \<notin> fst ` set params" "''per_page'' \<notin> fst ` set params"
  shows "page_url url params n =
     url @ ''?'' @ join ''&'' (map (\<lambda>(k, v). k @ ''='' @ js_string v) params
                              @ [''per_page=100'', ''page='' @ decimal n])"
proof -
  have app: "k \<notin> fst ` set al \<Longrightarrow> AList.update k v al = al @ [(k, v)]" for k v and al :: obj
    by (induction al) auto
  have "decimal 100 = ''100''" by code_simp
  then show ?thesis
    using assms by (simp add: page_url_def URLSearchParams_toString_def app)
qed

text \<open>
  Claim C2 (paginator protocol). When the remote serves non-empty pages \<open>pages ! 0\<close>,
  \<open>pages ! 1\<close>, ... for the page numbers 1, 2, ... and an empty page after them, each with a
  success status, \<^verbatim>\<open>paginatedGet\<close> returns the concatenation of those pages and has requested
  exactly the pages 1 to \<open>length pages + 1\<close>, in this order and nothing else; the length of
  a non-empty page plays no role. Every request carries \<^verbatim>\<open>per_page=100\<close> and its page number.
\<close>

theorem paginator_protocol:
  assumes "\<forall>i<length pages. pages ! i \<noteq> [] \<and>
      (\<exists>st txt. ok st \<and> fetch e (page_url url params (1 + int i)) = Response st txt (pages ! i))"
    and "\<exists>st txt. ok st \<and> fetch e (page_url url params (1 + int (length pages))) = Response st txt []"
  shows "paginatedGet e url params w =
      Some (Inr (concat pages),
            w\<lparr>trace := trace w @
                 map (\<lambda>i. Fetch (page_url url params (1 + int i))) [0..<length pages + 1]\<rparr>) \<and>
    (''page'' \<notin> fst ` set params \<and> ''per_page'' \<notin> fst ` set params \<longrightarrow>
       (\<forall>n. page_url url params n =
          url @ ''?'' @ join ''&'' (map (\<lambda>(k, v). k @ ''='' @ js_string v) params
                                   @ [''per_page=100'', ''page='' @ decimal n])))"
proof -
  let ?P = "AList.update ''page'' (JNum 1) (AList.update ''per_page'' (JNum 100) params)"
  let ?evs = "map (\<lambda>i. Fetch (page_url url params (1 + int i))) [0..<length pages]"
  from assms(2) obtain st tx where last: "ok st"
    "fetch e (page_url url params (1 + int (length pages))) = Response st tx []" by blast
  have "paginate e url ?P 1 [] w =
        paginate e url ?P (1 + int (length pages)) ([] @ concat pages)
          (performs (map (\<lambda>i. Fetch (page_url url params (1 + int i))) [0..<length pages]) w)"
    using assms(1) by (rule paginate_prefix)
  also have "\<dots> = Some (Inr (concat pages),
      perform (Fetch (page_url url params (1 + int (length pages))))
        (performs ?evs w))"
    using paginate_step_empty [OF last(2,1)] by simp
  also have "perform (Fetch (page_url url params (1 + int (length pages))))
        (performs ?evs w) =
      w\<lparr>trace := trace w @
           map (\<lambda>i. Fetch (page_url url params (1 + int i))) [0..<length pages + 1]\<rparr>"
    by (simp add: perform_Fetch performs_Fetch)
  finally show ?thesis
    by (simp add: paginatedGet_def page_url_plain)
qed

lemma decimal_digits [simp]:
  "decimal 1 = ''1''" "decimal 2 = ''2''" "decimal 3 = ''3''" "decimal 100 = ''100''"
  by code_simp+

text \<open>Pages of sizes 100, 100 and 0: 200 records, three requests.\<close>

theorem paginator_protocol_witness:
  "paginatedGet \<lparr>GITLAB_URL = ''g'', fetch = three_pages\<rparr> ''g/items'' [] \<lparr>db = None, trace = []\<rparr> =
     Some (Inr (replicate 200 sample_record),
           \<lparr>db = None,
            trace = [Fetch ''g/items?per_page=100&page=1'', Fetch ''g/items?per_page=100&page=2'',
                     Fetch ''g/items?per_page=100&page=3'']\<rparr>)"
  using paginator_protocol [of "[replicate 100 sample_record, replicate 100 sample_record]"
      "\<lparr>GITLAB_URL = ''g'', fetch = three_pages\<rparr>" "''g/items''" "[]" "\<lparr>db = None, trace = []\<rparr>"]
  by (simp add: All_less_Suc page_url_def URLSearchParams_toString_def three_pages_def ok_def
      replicate_add [symmetric] upt_rec [of 0] upt_rec [of 1] upt_rec [of 2])

section \<open>Empty listings\<close>

lemma paginatedGet_empty:
  assumes "fetch e (page_url url params 1) = Response st tx []" "ok st"
  shows "paginatedGet e url params w =
         Some (Inr [], w\<lparr>trace := trace w @ [Fetch (page_url url params 1)]\<rparr>)"
  unfolding paginatedGet_def
  using paginate_step_empty [OF assms, of 1 "[]" w] by (simp add: perform_Fetch)

lemma getDB_connected: "db w \<noteq> None \<Longrightarrow> getDB w = Some (Inr (), w)"
  by (auto simp: getDB_def)

text \<open>
  Claim C5 (empty-listing short-circuit). With the store connected, a syncer whose listing
  for the project is empty (the first page is answered with success and no record) returns
  the count 0, and the world it leaves differs from the one it found by the single request
  only: the store is unchanged and no write call, not even one with an empty batch, is
  issued. This holds for each of the four syncers.
\<close>

theorem empty_listing_short_circuit:
  assumes "db w \<noteq> None"
  shows
   "((\<exists>st txt. ok st \<and>
        fetch e (page_url (GITLAB_URL e @ ''/api/v4/projects/'' @ js_string pid @ ''/members/all'')
                   [] 1) = Response st txt []) \<longrightarrow>
     syncMembers e pid w =
       Some (Inr 0, w\<lparr>trace := trace w @
         [Fetch (page_url (GITLAB_URL e @ ''/api/v4/projects/'' @ js_string pid @ ''/members/all'')
                   [] 1)]\<rparr>)) \<and>
    ((\<exists>st txt. ok st \<and>
        fetch e (page_url (GITLAB_URL e @ ''/api/v4/projects/'' @ js_string pid
                             @ ''/repository/commits'')
                   [(''all'', JBool True), (''with_stats'', JBool True)] 1) = Response st txt []) \<longrightarrow>
     syncCommits e pid w =
       Some (Inr 0, w\<lparr>trace := trace w @
         [Fetch (page_url (GITLAB_URL e @ ''/api/v4/projects/'' @ js_string pid
                             @ ''/repository/commits'')
                   [(''all'', JBool True), (''with_stats'', JBool True)] 1)]\<rparr>)) \<and>
    ((\<exists>st txt. ok st \<and>
        fetch e (page_url (GITLAB_URL e @ ''/api/v4/projects/'' @ js_string pid
                             @ ''/merge_requests'')
                   [(''state'', JStr ''all'')] 1) = Response st txt []) \<longrightarrow>
     syncMergeRequests e pid w =
       Some (Inr 0, w\<lparr>trace := trace w @
         [Fetch (page_url (GITLAB_URL e @ ''/api/v4/projects/'' @ js_string pid
                             @ ''/merge_requests'')
                   [(''state'', JStr ''all'')] 1)]\<rparr>)) \<and>
    ((\<exists>st txt. ok st \<and>
        fetch e (page_url (GITLAB_URL e @ ''/api/v4/projects/'' @ js_string pid @ ''/issues'')
                   [(''state'', JStr ''all'')] 1) = Response st txt []) \<longrightarrow>
     syncIssues e pid w =
       Some (Inr 0, w\<lparr>trace := trace w @
         [Fetch (page_url (GITLAB_URL e @ ''/api/v4/projects/'' @ js_string pid @ ''/issues'')
                   [(''state'', JStr ''all'')] 1)]\<rparr>))"
proof (intro conjI impI)
  assume "\<exists>st txt. ok st \<and>
        fetch e (page_url (GITLAB_URL e @ ''/api/v4/projects/'' @ js_string pid @ ''/members/all'')
                   [] 1) = Response st txt []"
  then obtain st tx where "ok st" "fetch e (page_url (GITLAB_URL e @ ''/api/v4/projects/''
        @ js_string pid @ ''/members/all'') [] 1) = Response st tx []" by blast
  from paginatedGet_empty [OF this(2,1)] assms
  show "syncMembers e pid w =
       Some (Inr 0, w\<lparr>trace := trace w @
         [Fetch (page_url (GITLAB_URL e @ ''/api/v4/projects/'' @ js_string pid @ ''/members/all'')
                   [] 1)]\<rparr>)"
    by (simp add: syncMembers_def getDB_connected andThen_def)
next
  assume "\<exists>st txt. ok st \<and>
        fetch e (page_url (GITLAB_URL e @ ''/api/v4/projects/'' @ js_string pid
                             @ ''/repository/commits'')
                   [(''all'', JBool True), (''with_stats'', JBool True)] 1) = Response st txt []"
  then obtain st tx where "ok st" "fetch e (page_url (GITLAB_URL e @ ''/api/v4/projects/''
        @ js_string pid @ ''/repository/commits'')
        [(''all'', JBool True), (''with_stats'', JBool True)] 1) = Response st tx []" by blast
  from paginatedGet_empty [OF this(2,1)] assms
  show "syncCommits e pid w =
       Some (Inr 0, w\<lparr>trace := trace w @
         [Fetch (page_url (GITLAB_URL e @ ''/api/v4/projects/'' @ js_string pid
                             @ ''/repository/commits'')
                   [(''all'', JBool True), (''with_stats'', JBool True)] 1)]\<rparr>)"
    by (simp add: syncCommits_def getDB_connected andThen_def)
next
  assume "\<exists>st txt. ok st \<and>
        fetch e (page_url (GITLAB_URL e @ ''/api/v4/projects/'' @ js_string pid
                             @ ''/merge_requests'')
                   [(''state'', JStr ''all'')] 1) = Response st txt []"
  then obtain st tx where "ok st" "fetch e (page_url (GITLAB_URL e @ ''/api/v4/projects/''
        @ js_string pid @ ''/merge_requests'') [(''state'', JStr ''all'')] 1) = Response st tx []"
    by blast
  from paginatedGet_empty [OF this(2,1)] assms
  show "syncMergeRequests e pid w =
       Some (Inr 0, w\<lparr>trace := trace w @
         [Fetch (page_url (GITLAB_URL e @ ''/api/v4/projects/'' @ js_string pid
                             @ ''/merge_requests'')
                   [(''state'', JStr ''all'')] 1)]\<rparr>)"
    by (simp add: syncMergeRequests_def getDB_connected andThen_def)
next
  assume "\<exists>st txt. ok st \<and>
        fetch e (page_url (GITLAB_URL e @ ''/api/v4/projects/'' @ js_string pid @ ''/issues'')
                   [(''state'', JStr ''all'')] 1) = Response st txt []"
  then obtain st tx where "ok st" "fetch e (page_url (GITLAB_URL e @ ''/api/v4/projects/''
        @ js_string pid @ ''/issues'') [(''state'', JStr ''all'')] 1) = Response st tx []"
    by blast
  from paginatedGet_empty [OF this(2,1)] assms
  show "syncIssues e pid w =
       Some (Inr 0, w\<lparr>trace := trace w @
         [Fetch (page_url (GITLAB_URL e @ ''/api/v4/projects/'' @ js_string pid @ ''/issues'')
                   [(''state'', JStr ''all'')] 1)]\<rparr>)"
    by (simp add: syncIssues_def getDB_connected andThen_def)
qed

theorem empty_listing_short_circuit_witness:
  "syncMembers \<lparr>GITLAB_URL = ''g'', fetch = empty_remote\<rparr> (JNum 1)
       \<lparr>db = Some empty_store, trace = []\<rparr> =
     Some (Inr 0, \<lparr>db = Some empty_store,
                   trace = [Fetch ''g/api/v4/projects/1/members/all?per_page=100&page=1'']\<rparr>) \<and>
   syncCommits \<lparr>GITLAB_URL = ''g'', fetch = empty_remote\<rparr> (JNum 1)
       \<lparr>db = Some empty_store, trace = []\<rparr> =
     Some (Inr 0, \<lparr>db = Some empty_store,
                   trace = [Fetch
     ''g/api/v4/projects/1/repository/commits?all=true&with_stats=true&per_page=100&page=1'']\<rparr>) \<and>
   syncMergeRequests \<lparr>GITLAB_URL = ''g'', fetch = empty_remote\<rparr> (JNum 1)
       \<lparr>db = Some empty_store, trace = []\<rparr> =
     Some (Inr 0, \<lparr>db = Some empty_store,
                   trace = [Fetch
     ''g/api/v4/projects/1/merge_requests?state=all&per_page=100&page=1'']\<rparr>) \<and>
   syncIssues \<lparr>GITLAB_URL = ''g'', fetch = empty_remote\<rparr> (JNum 1)
       \<lparr>db = Some empty_store, trace = []\<rparr> =
     Some (Inr 0, \<lparr>db = Some empty_store,
                   trace = [Fetch ''g/api/v4/projects/1/issues?state=all&per_page=100&page=1'']\<rparr>)"
  using empty_listing_short_circuit [of "\<lparr>db = Some empty_store, trace = []\<rparr>"
      "\<lparr>GITLAB_URL = ''g'', fetch = empty_remote\<rparr>" "JNum 1"]
  by (simp add: page_url_def URLSearchParams_toString_def empty_remote_def ok_def)

section \<open>The top level of a run\<close>

lemma perform_ConsoleLog: "perform (ConsoleLog l) w = w\<lparr>trace := trace w @ [ConsoleLog l]\<rparr>"
  by (cases "db w") (simp_all add: perform_def)

lemma perform_ConsoleError:
  "perform (ConsoleError ls) w = w\<lparr>trace := trace w @ [ConsoleError ls]\<rparr>"
  by (cases "db w") (simp_all add: perform_def)

lemma console_log_simps [simp]:
  "db (console_log l w) = db w" "trace (console_log l w) = trace w @ [ConsoleLog l]"
  by (simp_all add: console_log_def perform_ConsoleLog)

lemma console_error_simps [simp]:
  "db (console_error ls w) = db w" "trace (console_error ls w) = trace w @ [ConsoleError ls]"
  by (simp_all add: console_error_def perform_ConsoleError)

lemma summary_line_eq:
  "db w = Some s \<Longrightarrow> summary_line col w =
     w\<lparr>trace := trace w @ [ConsoleLog (''[gitlab-sync]   '' @ col @ '': ''
                              @ decimal_nat (length (s col)) @ '' documents'')]\<rparr>"
  by (simp add: summary_line_def countDocuments_def console_log_def perform_ConsoleLog)

lemma syncProjects_disconnected:
  "db w = None \<Longrightarrow> syncProjects e w = Some (Inl (Error ''Database not connected''), w)"
  by (simp add: syncProjects_def getDB_def andThen_def)

lemma syncProjects_Inr_connected:
  assumes "syncProjects e w = Some (Inr n, w1)"
  shows "db w \<noteq> None \<and> db w1 \<noteq> None"
proof -
  have c: "db w \<noteq> None"
    using assms syncProjects_disconnected [of w e] by (cases "db w") auto
  from tracksD [OF tracks_syncProjects c assms] obtain evs where "w1 = performs evs w" by blast
  with c show ?thesis by simp
qed

lemma runSync_unfold:
  "runSync e clk w =
     (case syncProjects e (console_log (''[gitlab-sync] Starting sync at '' @ start_iso clk) w) of
        None \<Rightarrow> None
      | Some (Inl err, w1) \<Rightarrow>
          Some (w1\<lparr>trace := trace w1 @ [ConsoleError [''[gitlab-sync] Sync failed:'', message err]]\<rparr>)
      | Some (Inr n, w1) \<Rightarrow>
          (case db w1 of
             None \<Rightarrow> Some (w1\<lparr>trace := trace w1 @
                 [ConsoleError [''[gitlab-sync] Sync failed:'', ''Database not connected'']]\<rparr>)
           | Some s \<Rightarrow> Some (w1\<lparr>trace := trace w1 @ summary clk n s\<rparr>)))"
proof (cases "syncProjects e (console_log (''[gitlab-sync] Starting sync at '' @ start_iso clk) w)")
  case None
  then show ?thesis by (simp add: runSync_def Let_def andThen_def)
next
  case (Some a)
  obtain r w1 where a: "a = (r, w1)" by (cases a)
  show ?thesis
  proof (cases r)
    case (Inl err)
    with Some a show ?thesis
      by (simp add: runSync_def Let_def andThen_def console_error_def perform_ConsoleError)
  next
    case (Inr n)
    show ?thesis
    proof (cases "db w1")
      case None
      with Some a Inr show ?thesis
        by (simp add: runSync_def Let_def andThen_def getDB_def console_error_def
            perform_ConsoleError)
    next
      case (Some s)
      have "fold summary_line [''projects'', ''members'', ''commits'', ''merge_requests'', ''issues'']
              (console_log ''[gitlab-sync] === MongoDB summary (afonsystem) ==='' w1) =
            w1\<lparr>trace := trace w1 @ butlast (summary clk n s)\<rparr>"
        using Some by (simp add: summary_line_eq summary_def console_log_def perform_ConsoleLog)
      with Some \<open>syncProjects e _ = Some a\<close> a Inr show ?thesis
        by (simp add: runSync_def Let_def andThen_def getDB_def console_log_def
            perform_ConsoleLog summary_def)
    qed
  qed
qed

section \<open>Failing requests\<close>

lemma paginatedGet_pages:
  assumes "\<forall>i<length pages. pages ! i \<noteq> [] \<and>
      (\<exists>st txt. ok st \<and> fetch e (page_url url params (1 + int i)) = Response st txt (pages ! i))"
  shows "paginatedGet e url params w =
     paginate e url (AList.update ''page'' (JNum 1) (AList.update ''per_page'' (JNum 100) params))
       (1 + int (length pages)) (concat pages)
       (w\<lparr>trace := trace w @
            map (\<lambda>i. Fetch (page_url url params (1 + int i))) [0..<length pages]\<rparr>)"
  unfolding paginatedGet_def
  using paginate_prefix [OF assms, of 1 "[]" w] by (simp add: performs_Fetch)

lemma upt_snoc_map: "map f [0..<n + 1] = map f [0..<n] @ [f n]"
  by simp

text \<open>
  Claim C7 (fetch error: shape and fatality). First conjunct: when the pages before it were
  answered with success and were not empty, and a page is answered with a status outside
  200..299, \<^verbatim>\<open>paginatedGet\<close> throws an error whose message carries the status code, the
  status text and the URL of the listing; it returns no record, and the failing request is
  the last one it sends. Second conjunct: each of the four syncers lets the error of its
  listing through unchanged, in the world the paginator left (so without any write).
  Third conjunct: in any run, a request that is answered with a non-success status is the
  last request of the run; the run ends in the \<^verbatim>\<open>catch\<close> block, with that error reported.
\<close>

theorem fetch_error_is_fatal:
  "((\<forall>i<length pages. pages ! i \<noteq> [] \<and>
       (\<exists>st' txt'. ok st' \<and>
          fetch e (page_url url params (1 + int i)) = Response st' txt' (pages ! i))) \<and>
    fetch e (page_url url params (1 + int (length pages))) = Response st txt body \<and> \<not> ok st \<longrightarrow>
      paginatedGet e url params w =
        Some (Inl (Error (''GitLab API error: '' @ decimal st @ '' '' @ txt @ '' for '' @ url)),
              w\<lparr>trace := trace w @
                   map (\<lambda>i. Fetch (page_url url params (1 + int i))) [0..<length pages + 1]\<rparr>)) \<and>
   (db v \<noteq> None \<longrightarrow>
     (paginatedGet e (GITLAB_URL e @ ''/api/v4/projects/'' @ js_string pid @ ''/members/all'') [] v
        = Some (Inl err1, v1) \<longrightarrow> syncMembers e pid v = Some (Inl err1, v1)) \<and>
     (paginatedGet e (GITLAB_URL e @ ''/api/v4/projects/'' @ js_string pid @ ''/repository/commits'')
        [(''all'', JBool True), (''with_stats'', JBool True)] v
        = Some (Inl err2, v2) \<longrightarrow> syncCommits e pid v = Some (Inl err2, v2)) \<and>
     (paginatedGet e (GITLAB_URL e @ ''/api/v4/projects/'' @ js_string pid @ ''/merge_requests'')
        [(''state'', JStr ''all'')] v
        = Some (Inl err3, v3) \<longrightarrow> syncMergeRequests e pid v = Some (Inl err3, v3)) \<and>
     (paginatedGet e (GITLAB_URL e @ ''/api/v4/projects/'' @ js_string pid @ ''/issues'')
        [(''state'', JStr ''all'')] v
        = Some (Inl err4, v4) \<longrightarrow> syncIssues e pid v = Some (Inl err4, v4))) \<and>
   (runSync e clk x = Some x' \<and> Fetch u \<in> set (drop (length (trace x)) (trace x')) \<and>
    fetch e u = Response st0 txt0 body0 \<and> \<not> ok st0 \<longrightarrow>
      run_failed x' \<and>
      (\<exists>evs base qs. u = base @ ''?'' @ qs \<and>
         trace x' = trace x @ evs @
           [Fetch u,
            ConsoleError [''[gitlab-sync] Sync failed:'',
                          ''GitLab API error: '' @ decimal st0 @ '' '' @ txt0 @ '' for '' @ base]]))"
proof -
  have p1: "((\<forall>i<length pages. pages ! i \<noteq> [] \<and>
       (\<exists>st' txt'. ok st' \<and>
          fetch e (page_url url params (1 + int i)) = Response st' txt' (pages ! i))) \<and>
    fetch e (page_url url params (1 + int (length pages))) = Response st txt body \<and> \<not> ok st \<longrightarrow>
      paginatedGet e url params w =
        Some (Inl (Error (''GitLab API error: '' @ decimal st @ '' '' @ txt @ '' for '' @ url)),
              w\<lparr>trace := trace w @
                   map (\<lambda>i. Fetch (page_url url params (1 + int i))) [0..<length pages + 1]\<rparr>))"
  proof (intro impI)
  assume a: "(\<forall>i<length pages. pages ! i \<noteq> [] \<and>
       (\<exists>st' txt'. ok st' \<and>
          fetch e (page_url url params (1 + int i)) = Response st' txt' (pages ! i))) \<and>
    fetch e (page_url url params (1 + int (length pages))) = Response st txt body \<and> \<not> ok st"
  then have pre: "\<forall>i<length pages. pages ! i \<noteq> [] \<and>
       (\<exists>st' txt'. ok st' \<and>
          fetch e (page_url url params (1 + int i)) = Response st' txt' (pages ! i))"
    and bad: "fetch e (page_url url params (1 + int (length pages))) = Response st txt body"
      "\<not> ok st" by blast+
  show "paginatedGet e url params w =
        Some (Inl (Error (''GitLab API error: '' @ decimal st @ '' '' @ txt @ '' for '' @ url)),
              w\<lparr>trace := trace w @
                   map (\<lambda>i. Fetch (page_url url params (1 + int i))) [0..<length pages + 1]\<rparr>)"
    unfolding paginatedGet_pages [OF pre] paginate_step_error [OF bad] upt_snoc_map
    by (simp add: perform_Fetch api_error_def)
  qed
  have p2: "(db v \<noteq> None \<longrightarrow>
     (paginatedGet e (GITLAB_URL e @ ''/api/v4/projects/'' @ js_string pid @ ''/members/all'') [] v
        = Some (Inl err1, v1) \<longrightarrow> syncMembers e pid v = Some (Inl err1, v1)) \<and>
     (paginatedGet e (GITLAB_URL e @ ''/api/v4/projects/'' @ js_string pid @ ''/repository/commits'')
        [(''all'', JBool True), (''with_stats'', JBool True)] v
        = Some (Inl err2, v2) \<longrightarrow> syncCommits e pid v = Some (Inl err2, v2)) \<and>
     (paginatedGet e (GITLAB_URL e @ ''/api/v4/projects/'' @ js_string pid @ ''/merge_requests'')
        [(''state'', JStr ''all'')] v
        = Some (Inl err3, v3) \<longrightarrow> syncMergeRequests e pid v = Some (Inl err3, v3)) \<and>
     (paginatedGet e (GITLAB_URL e @ ''/api/v4/projects/'' @ js_string pid @ ''/issues'')
        [(''state'', JStr ''all'')] v
        = Some (Inl err4, v4) \<longrightarrow> syncIssues e pid v = Some (Inl err4, v4)))"
  proof (intro conjI impI)
  assume "db v \<noteq> None"
    "paginatedGet e (GITLAB_URL e @ ''/api/v4/projects/'' @ js_string pid @ ''/members/all'') [] v
        = Some (Inl err1, v1)"
  then show "syncMembers e pid v = Some (Inl err1, v1)"
    by (simp add: syncMembers_def getDB_connected andThen_def)
  next
  assume "db v \<noteq> None"
    "paginatedGet e (GITLAB_URL e @ ''/api/v4/projects/'' @ js_string pid @ ''/repository/commits'')
        [(''all'', JBool True), (''with_stats'', JBool True)] v = Some (Inl err2, v2)"
  then show "syncCommits e pid v = Some (Inl err2, v2)"
    by (simp add: syncCommits_def getDB_connected andThen_def)
  next
  assume "db v \<noteq> None"
    "paginatedGet e (GITLAB_URL e @ ''/api/v4/projects/'' @ js_string pid @ ''/merge_requests'')
        [(''state'', JStr ''all'')] v = Some (Inl err3, v3)"
  then show "syncMergeRequests e pid v = Some (Inl err3, v3)"
    by (simp add: syncMergeRequests_def getDB_connected andThen_def)
  next
  assume "db v \<noteq> None"
    "paginatedGet e (GITLAB_URL e @ ''/api/v4/projects/'' @ js_string pid @ ''/issues'')
        [(''state'', JStr ''all'')] v = Some (Inl err4, v4)"
  then show "syncIssues e pid v = Some (Inl err4, v4)"
    by (simp add: syncIssues_def getDB_connected andThen_def)
  qed
  have p3: "(runSync e clk x = Some x' \<and> Fetch u \<in> set (drop (length (trace x)) (trace x')) \<and>
    fetch e u = Response st0 txt0 body0 \<and> \<not> ok st0 \<longrightarrow>
      run_failed x' \<and>
      (\<exists>evs base qs. u = base @ ''?'' @ qs \<and>
         trace x' = trace x @ evs @
           [Fetch u,
            ConsoleError [''[gitlab-sync] Sync failed:'',
                          ''GitLab API error: '' @ decimal st0 @ '' '' @ txt0 @ '' for '' @ base]]))"
  proof (intro impI)
  assume a: "runSync e clk x = Some x' \<and> Fetch u \<in> set (drop (length (trace x)) (trace x')) \<and>
    fetch e u = Response st0 txt0 body0 \<and> \<not> ok st0"
  let ?x0 = "console_log (''[gitlab-sync] Starting sync at '' @ start_iso clk) x"
  from a have run: "runSync e clk x = Some x'"
    and u: "Fetch u \<in> set (drop (length (trace x)) (trace x'))"
    and bad: "fetch e u = Response st0 txt0 body0" "\<not> ok st0" by blast+
  from run obtain r x1 where sp: "syncProjects e ?x0 = Some (r, x1)"
    by (cases "syncProjects e ?x0") (auto simp: runSync_unfold)
  have conn: "db x \<noteq> None"
  proof
    assume "db x = None"
    then have "syncProjects e ?x0 = Some (Inl (Error ''Database not connected''), ?x0)"
      by (simp add: syncProjects_disconnected)
    with run have "trace x' = trace x @ [ConsoleLog (''[gitlab-sync] Starting sync at '' @ start_iso clk),
      ConsoleError [''[gitlab-sync] Sync failed:'', ''Database not connected'']]"
      by (auto simp: runSync_unfold)
    with u show False by simp
  qed
  then have "db ?x0 \<noteq> None" by simp
  from tracksD [OF tracks_syncProjects this sp] obtain evs where evs:
    "x1 = performs evs ?x0" "list_all conforms evs" "fetch_outcome e evs r" by blast
  have not_good: "\<not> succeeded e (Fetch u)" using bad by simp
  have tr: "trace x1 = trace x @ ConsoleLog (''[gitlab-sync] Starting sync at '' @ start_iso clk) # evs"
    using evs(1) by simp
  have u_in: "Fetch u \<in> set evs"
  proof (cases r)
    case (Inl err)
    with run sp tr u show ?thesis by (auto simp: runSync_unfold)
  next
    case (Inr n)
    from syncProjects_Inr_connected [OF sp [unfolded Inr]] obtain s where "db x1 = Some s" by auto
    with run sp tr u Inr show ?thesis by (auto simp: runSync_unfold summary_def)
  qed
  with not_good have "\<not> list_all (succeeded e) evs" unfolding list_all_iff by blast
  with evs(3) obtain evs0 u' err where f: "evs = evs0 @ [Fetch u']" "list_all (succeeded e) evs0"
    "r = Inl err" "failure e u' err" unfolding fetch_outcome_def by blast
  from u_in f(1,2) not_good have "u' = u"
    unfolding list_all_iff by (auto simp del: succeeded.simps)
  with f(4) bad obtain base qs where b: "u = base @ ''?'' @ qs" "err = api_error st0 txt0 base"
    by (auto simp: failure_def)
  have x': "x' = x1\<lparr>trace := trace x1 @ [ConsoleError [''[gitlab-sync] Sync failed:'', message err]]\<rparr>"
    using run sp f(3) by (simp add: runSync_unfold)
  then have "run_failed x'" by (simp add: run_failed_def)
  moreover have "trace x' = trace x @
      (ConsoleLog (''[gitlab-sync] Starting sync at '' @ start_iso clk) # evs0) @
       [Fetch u, ConsoleError [''[gitlab-sync] Sync failed:'',
                  ''GitLab API error: '' @ decimal st0 @ '' '' @ txt0 @ '' for '' @ base]]"
    using x' tr f(1) \<open>u' = u\<close> b(2) by (simp add: api_error_def)
  ultimately show "run_failed x' \<and>
      (\<exists>evs base qs. u = base @ ''?'' @ qs \<and>
         trace x' = trace x @ evs @
           [Fetch u,
            ConsoleError [''[gitlab-sync] Sync failed:'',
                          ''GitLab API error: '' @ decimal st0 @ '' '' @ txt0 @ '' for '' @ base]])"
    using b(1) by blast
  qed
  show ?thesis by (rule conjI [OF p1 conjI [OF p2 p3]])
qed

section \<open>Evaluation on the sample remotes\<close>

lemma digit_simps [simp]:
  "digit 0 = CHR ''0''" "digit 1 = CHR ''1''" "digit 2 = CHR ''2''" "digit 3 = CHR ''3''"
  "digit 4 = CHR ''4''" "digit 5 = CHR ''5''" "digit 6 = CHR ''6''" "digit 7 = CHR ''7''"
  "digit 8 = CHR ''8''" "digit 9 = CHR ''9''" "digit (Suc 0) = CHR ''1''"
  by (simp_all add: digit_def)

lemma decimal_nat_numeral [simp]:
  "decimal_nat (numeral k) =
     (if 10 \<le> (numeral k :: nat) then decimal_nat (numeral k div 10) @ [digit (numeral k mod 10)]
      else [digit (numeral k)])"
  by (rule decimal_nat.simps)

lemma decimal_nat_small [simp]:
  "decimal_nat 0 = ''0''" "decimal_nat 1 = ''1''" "decimal_nat (Suc 0) = ''1''"
  "decimal_nat (Suc (Suc 0)) = ''2''"
  by (simp_all add: decimal_nat.simps [of 0] decimal_nat.simps [of 1]
      decimal_nat.simps [of "Suc 0"] decimal_nat.simps [of "Suc (Suc 0)"] digit_def)

lemma decimal_numeral [simp]:
  "decimal (numeral k) = decimal_nat (numeral k)" "decimal 0 = ''0''"
  by (simp_all add: decimal_def)

lemmas eval_simps = paginatedGet_def paginate.simps Let_def URLSearchParams_toString_def ok_def
  perform_Fetch

lemmas run_simps = paginatedGet_def paginate.simps Let_def URLSearchParams_toString_def ok_def
  console_log_def andThen_def getDB_connected updateOne_def bulkWrite_def
  syncMembers_def syncCommits_def syncMergeRequests_def syncIssues_def syncProjects_def

lemma project1_id [simp]: "property project1 ''id'' = JNum 1"
  "property project1 ''path_with_namespace'' = JStr ''team/app''"
  "property (project_doc project1) ''project_id'' = JNum 1"
  by (simp_all add: project1_def property_def project_doc_def)

lemma healthy_syncProjects:
  "db w \<noteq> None \<Longrightarrow> syncProjects healthy_env w = Some (Inr 1, performs healthy_events w)"
  by (simp add: run_simps healthy_env_def healthy_def healthy_events_def)

lemmas store_simps = effect.simps upsert.simps matches_def set_fields.simps serialize_op_def
  serialize_def member_op_def commit_op_def mr_op_def project_doc_def property_def or_else_def
  Let_def project1_def member10_def commit_abc_def mr7_def

section \<open>The summary of a successful run\<close>

text \<open>
  Claim C9 (run summary on success). When \<^verbatim>\<open>syncProjects\<close> returns the number \<open>n\<close> of
  projects, the run ends with the summary: one line per entity kind, in the order projects,
  members, commits, merge requests, issues, each with the number of documents that the
  collection holds in the store after the sync (all of them, not those this run wrote),
  then the line with \<open>n\<close> and the elapsed time.
\<close>

theorem run_summary_on_success:
  assumes "syncProjects e (console_log (''[gitlab-sync] Starting sync at '' @ start_iso clk) w)
             = Some (Inr n, w1)"
  shows "\<exists>s. db w1 = Some s \<and>
     runSync e clk w =
       Some (w1\<lparr>trace := trace w1 @
         [ConsoleLog ''[gitlab-sync] === MongoDB summary (afonsystem) ==='',
          ConsoleLog (''[gitlab-sync]   projects: '' @ decimal_nat (length (s ''projects''))
                      @ '' documents''),
          ConsoleLog (''[gitlab-sync]   members: '' @ decimal_nat (length (s ''members''))
                      @ '' documents''),
          ConsoleLog (''[gitlab-sync]   commits: '' @ decimal_nat (length (s ''commits''))
                      @ '' documents''),
          ConsoleLog (''[gitlab-sync]   merge_requests: ''
                      @ decimal_nat (length (s ''merge_requests'')) @ '' documents''),
          ConsoleLog (''[gitlab-sync]   issues: '' @ decimal_nat (length (s ''issues''))
                      @ '' documents''),
          ConsoleLog (''[gitlab-sync] Sync completed: '' @ decimal_nat n @ '' projects in ''
                      @ seconds_toFixed1 clk (end_now clk - start_now clk) @ ''s'')]\<rparr>)"
proof -
  from syncProjects_Inr_connected [OF assms] obtain s where s: "db w1 = Some s" by auto
  with assms have "runSync e clk w = Some (w1\<lparr>trace := trace w1 @ summary clk n s\<rparr>)"
    by (simp add: runSync_unfold)
  with s show ?thesis by (simp add: summary_def)
qed

text \<open>
  A run over a store that already holds a member of another project: the summary counts two
  members, of which this run wrote one.
\<close>

theorem run_summary_on_success_witness:
  "map_option trace (runSync healthy_env demo_clock \<lparr>db = Some archive_store, trace = []\<rparr>) =
     Some (ConsoleLog ''[gitlab-sync] Starting sync at 2024-01-01T00:00:00.000Z'' # healthy_events @
       [ConsoleLog ''[gitlab-sync] === MongoDB summary (afonsystem) ==='',
        ConsoleLog ''[gitlab-sync]   projects: 1 documents'',
        ConsoleLog ''[gitlab-sync]   members: 2 documents'',
        ConsoleLog ''[gitlab-sync]   commits: 1 documents'',
        ConsoleLog ''[gitlab-sync]   merge_requests: 1 documents'',
        ConsoleLog ''[gitlab-sync]   issues: 0 documents'',
        ConsoleLog ''[gitlab-sync] Sync completed: 1 projects in 1.5s''])"
proof -
  let ?w = "\<lparr>db = Some archive_store, trace = []\<rparr>"
  let ?w0 = "console_log (''[gitlab-sync] Starting sync at '' @ start_iso demo_clock) ?w"
  have h: "syncProjects healthy_env ?w0 = Some (Inr 1, performs healthy_events ?w0)"
    by (rule healthy_syncProjects) simp
  have counts: "length (replay healthy_events archive_store ''projects'') = 1"
    "length (replay healthy_events archive_store ''members'') = 2"
    "length (replay healthy_events archive_store ''commits'') = 1"
    "length (replay healthy_events archive_store ''merge_requests'') = 1"
    "length (replay healthy_events archive_store ''issues'') = 0"
    by (simp_all add: healthy_events_def archive_store_def store_simps)
  from run_summary_on_success [OF h] counts show ?thesis
    by (simp add: db_performs demo_clock_def fixed1_def)
qed

section \<open>Failure of a run\<close>

lemma andThen_assoc:
  "andThen (andThen m f) g = andThen m (\<lambda>x w. andThen (f x w) g)"
  by (auto simp: andThen_def split: option.splits sum.splits prod.splits)

lemma andThen_simps [simp]:
  "andThen None f = None"
  "andThen (Some (Inl err, w)) f = Some (Inl err, w)"
  "andThen (Some (Inr x, w)) f = f x w"
  by (simp_all add: andThen_def)

lemma loop_append:
  "syncProjects_loop e (xs @ ys) w =
     andThen (syncProjects_loop e xs w) (\<lambda>_ w. syncProjects_loop e ys w)"
proof (induction xs arbitrary: w)
  case Nil
  then show ?case by simp
next
  case (Cons p xs)
  then show ?case
    by (simp add: Let_def andThen_assoc updateOne_def)
qed

lemma run_failed_snoc [simp]:
  "run_failed (w\<lparr>trace := evs @ [ConsoleError (''[gitlab-sync] Sync failed:'' # ls)]\<rparr>)"
  "\<not> run_failed (w\<lparr>trace := evs @ [ConsoleLog l]\<rparr>)"
  by (simp_all add: run_failed_def)

lemma conforms_no_console_error:
  "list_all conforms evs \<Longrightarrow> filter is_console_error evs = []"
proof (induction evs)
  case Nil
  then show ?case by simp
next
  case (Cons ev evs)
  then show ?case by (cases ev) simp_all
qed

lemma syncProjects_events:
  assumes "syncProjects e w = Some (r, w1)"
  shows "\<exists>evs. w1 = performs evs w \<and> filter is_console_error evs = [] \<and>
    (db w \<noteq> None \<longrightarrow> list_all conforms evs \<and> fetch_outcome e evs r)"
proof (cases "db w")
  case None
  with assms have "w1 = performs [] w" by (simp add: syncProjects_disconnected)
  with None show ?thesis by (intro exI [of _ "[]"]) simp
next
  case (Some s)
  then have "db w \<noteq> None" by simp
  from tracksD [OF tracks_syncProjects this assms] obtain evs where
    "w1 = performs evs w" "list_all conforms evs" "fetch_outcome e evs r" by blast
  then show ?thesis
    using conforms_no_console_error by (intro exI [of _ evs]) simp
qed



section \<open>Replaying a trace on a store\<close>

lemma effect_collection: "effect ev s c = fold upsert (ops_of c ev) (s c)"
  by (cases ev) simp_all

lemma replay_collection: "replay evs s c = fold upsert (writes_to c evs) (s c)"
proof (induction evs arbitrary: s)
  case Nil
  then show ?case by (simp add: writes_to_def)
next
  case (Cons ev evs)
  then show ?case by (simp add: writes_to_def effect_collection)
qed

lemma ops_of_conform:
  "conforms ev \<Longrightarrow> list_all (wf_op (key_fields c) (mapped_fields c)) (ops_of c ev)"
  by (cases ev) (auto simp: conforming_op_def list_all_iff)

lemma writes_conform:
  "list_all conforms evs \<Longrightarrow> list_all (wf_op (key_fields c) (mapped_fields c)) (writes_to c evs)"
  by (induction evs) (simp_all add: writes_to_def ops_of_conform)

lemma replay_idem:
  assumes "list_all conforms evs"
  shows "replay evs (replay evs s) = replay evs s"
proof
  fix c
  show "replay evs (replay evs s) c = replay evs s c"
    unfolding replay_collection
    using writes_conform [OF assms] by (rule fold_upsert_idem)
qed

lemma replay_unique:
  assumes "list_all conforms evs" "unique_keys (key_fields c) (s c)"
  shows "unique_keys (key_fields c) (replay evs s c)"
  unfolding replay_collection
  using writes_conform [OF assms(1)] assms(2) by (rule unique_fold_upsert)

lemma replay_untouched:
  assumes "list_all (\<lambda>ev. target ev \<noteq> Some c) evs"
  shows "replay evs s c = s c"
proof -
  have "ops_of c ev = []" if "target ev \<noteq> Some c" for ev
    using that by (cases ev) auto
  with assms have "writes_to c evs = []"
    by (induction evs) (simp_all add: writes_to_def)
  then show ?thesis by (simp add: replay_collection)
qed

lemma wf_op_names:
  "wf_op keys names u \<Longrightarrow> set (map fst (op_set u)) \<subseteq> set names"
  by (simp add: wf_op_def)

lemma replay_frame:
  assumes "list_all conforms evs"
  shows "length (s c) \<le> length (replay evs s c) \<and>
     (\<forall>i<length (s c). \<forall>g. g \<notin> set (mapped_fields c) \<longrightarrow>
        map_of (replay evs s c ! i) g = map_of (s c ! i) g)"
proof -
  have "list_all (\<lambda>u. set (map fst (op_set u)) \<subseteq> set (mapped_fields c)) (writes_to c evs)"
    using writes_conform [OF assms, of c] wf_op_names unfolding list_all_iff by blast
  from frame_fold_upsert [OF this] show ?thesis
    unfolding replay_collection .
qed

lemma replay_length: "length (s c) \<le> length (replay evs s c)"
proof -
  have "length d \<le> length (upsert u d)" for u d
    by (induction d) simp_all
  then have "length d \<le> length (fold upsert ops d)" for ops d
  proof (induction ops arbitrary: d)
    case Nil
    then show ?case by simp
  next
    case (Cons u ops)
    have "length d \<le> length (upsert u d)" by (rule Cons.prems)
    also have "\<dots> \<le> length (fold upsert ops (upsert u d))" by (rule Cons.IH) (rule Cons.prems)
    finally show ?case by simp
  qed
  then show ?thesis by (simp add: replay_collection)
qed

lemma paginate_fetches:
  "paginate e url params page results w = Some y \<Longrightarrow>
     \<exists>evs. snd y = performs evs w \<and> list_all (\<lambda>ev. target ev = None) evs"
proof (induction rule: paginate.raw_induct [rotated 1, consumes 1])
  case (1 pag e url params page results w y)
  define tg where
    "tg = url @ ''?'' @ URLSearchParams_toString (AList.update ''page'' (JNum page) params)"
  note body = "1.hyps" [unfolded Let_def, folded tg_def]
  have one: "\<exists>evs. perform (Fetch tg) w = performs evs w \<and> list_all (\<lambda>ev. target ev = None) evs"
    by (intro exI [of _ "[Fetch tg]"]) simp
  show ?case
  proof (cases "fetch e tg")
    case (Rejected err)
    with body one show ?thesis by auto
  next
    case (Response st tx data)
    show ?thesis
    proof (cases "ok st \<and> data \<noteq> []")
      case False
      with body Response one show ?thesis by (auto split: if_splits)
    next
      case True
      with body Response
      have "pag e url params (page + 1) (results @ data) (perform (Fetch tg) w) = Some y"
        by simp
      from "1.IH" [OF this] obtain evs where
        "snd y = performs evs (perform (Fetch tg) w)" "list_all (\<lambda>ev. target ev = None) evs"
        by blast
      then show ?thesis by (intro exI [of _ "Fetch tg # evs"]) simp
    qed
  qed
qed

lemma paginatedGet_fetches:
  assumes "paginatedGet e url params w = Some (r, w')"
  shows "\<exists>evs. w' = performs evs w \<and> list_all (\<lambda>ev. target ev = None) evs"
  using paginate_fetches [OF assms [unfolded paginatedGet_def]] by simp

lemma runSync_result:
  assumes "syncProjects e (console_log (''[gitlab-sync] Starting sync at '' @ start_iso clk) w)
     = Some (r, w1)"
  shows "\<exists>w' evs. runSync e clk w = Some w' \<and> db w' = db w1 \<and> trace w' = trace w1 @ evs"
proof (cases r)
  case (Inl err)
  with assms show ?thesis by (simp add: runSync_unfold)
next
  case (Inr n)
  from syncProjects_Inr_connected [OF assms [unfolded Inr]] obtain s where "db w1 = Some s" by auto
  with assms Inr show ?thesis by (simp add: runSync_unfold)
qed

lemma runSync_replay:
  assumes "runSync e clk w = Some w'" "db w = Some s"
  obtains evs evs' where "list_all conforms evs" "db w' = Some (replay evs s)"
    "trace w' = trace w @ ConsoleLog (''[gitlab-sync] Starting sync at '' @ start_iso clk) # evs @ evs'"
    "list_all (\<lambda>ev. target ev = None) evs'"
    "\<And>v. db v \<noteq> None \<Longrightarrow> \<exists>r. syncProjects e v = Some (r, performs evs v)"
proof -
  let ?x0 = "console_log (''[gitlab-sync] Starting sync at '' @ start_iso clk) w"
  from assms(1) obtain r w1 where sp: "syncProjects e ?x0 = Some (r, w1)"
    by (cases "syncProjects e ?x0") (auto simp: runSync_unfold)
  have conn: "db ?x0 \<noteq> None" using assms(2) by simp
  from tracksD [OF tracks_syncProjects conn sp] obtain evs where evs:
    "w1 = performs evs ?x0" "list_all conforms evs"
    "\<And>v. db v \<noteq> None \<Longrightarrow> syncProjects e v = Some (r, performs evs v)" by blast
  have db1: "db w1 = Some (replay evs s)" using evs(1) assms(2) by (simp add: db_performs)
  have "\<exists>evs'. w' = w1\<lparr>trace := trace w1 @ evs'\<rparr> \<and> list_all (\<lambda>ev. target ev = None) evs'"
  proof (cases r)
    case (Inl err)
    with assms(1) sp show ?thesis
      by (intro exI [of _ "[ConsoleError [''[gitlab-sync] Sync failed:'', message err]]"])
        (simp add: runSync_unfold)
  next
    case (Inr n)
    with assms(1) sp db1 show ?thesis
      by (intro exI [of _ "summary clk n (replay evs s)"]) (simp add: runSync_unfold summary_def)
  qed
  then obtain evs' where "w' = w1\<lparr>trace := trace w1 @ evs'\<rparr>"
    "list_all (\<lambda>ev. target ev = None) evs'" by blast
  with evs db1 that [of evs evs'] show thesis by auto
qed

section \<open>Idempotence\<close>

text \<open>
  Claim C1 (idempotence of the sync). Against one remote snapshot \<open>e\<close>, a run that ends,
  successfully or not, can be followed by a second run, which ends too and leaves the store
  exactly as the first run left it: the same documents in every collection, none added.
  The clocks of the two runs are independent.
\<close>

theorem sync_idempotent:
  assumes "runSync e clk w = Some w1"
  shows "\<exists>w2. runSync e clk' w1 = Some w2 \<and> db w2 = db w1"
proof (cases "db w")
  case None
  let ?x0 = "console_log (''[gitlab-sync] Starting sync at '' @ start_iso clk) w"
  have "syncProjects e ?x0 = Some (Inl (Error ''Database not connected''), ?x0)"
    using None by (simp add: syncProjects_disconnected)
  with assms have d1: "db w1 = None" using None by (auto simp: runSync_unfold)
  let ?y0 = "console_log (''[gitlab-sync] Starting sync at '' @ start_iso clk') w1"
  have "syncProjects e ?y0 = Some (Inl (Error ''Database not connected''), ?y0)"
    using d1 by (simp add: syncProjects_disconnected)
  from runSync_result [OF this] d1 show ?thesis by auto
next
  case (Some s)
  from runSync_replay [OF assms Some] obtain evs evs' where evs: "list_all conforms evs"
    "db w1 = Some (replay evs s)"
    "\<And>v. db v \<noteq> None \<Longrightarrow> \<exists>r. syncProjects e v = Some (r, performs evs v)" by metis
  let ?y0 = "console_log (''[gitlab-sync] Starting sync at '' @ start_iso clk') w1"
  have "db ?y0 \<noteq> None" using evs(2) by simp
  from evs(3) [OF this] obtain r where "syncProjects e ?y0 = Some (r, performs evs ?y0)" ..
  from runSync_result [OF this] obtain w2 where "runSync e clk' w1 = Some w2"
    "db w2 = db (performs evs ?y0)" by blast
  moreover have "db (performs evs ?y0) = Some (replay evs (replay evs s))"
    using evs(2) by (simp add: db_performs)
  ultimately show ?thesis
    using evs(2) replay_idem [OF evs(1)] by simp
qed

section \<open>Runs against the sample remotes\<close>

lemma perform_sel [simp]:
  "trace (perform ev w) = trace w @ [ev]" "db (perform ev w) = map_option (effect ev) (db w)"
  by (simp_all add: perform_def)

lemma project2_id [simp]: "property project2 ''id'' = JNum 2"
  "property project2 ''path_with_namespace'' = JStr ''team/lib''"
  "property (project_doc project2) ''project_id'' = JNum 2"
  by (simp_all add: project2_def property_def project_doc_def)

lemma broken_project1:
  "db w \<noteq> None \<Longrightarrow>
   syncProjects_loop broken_env [project1] w = Some (Inr (), performs project1_events w)"
  by (simp add: run_simps broken_env_def broken_def healthy_def project1_events_def)

lemma broken_project2:
  "db w \<noteq> None \<Longrightarrow>
   syncProjects_loop broken_env [project2] w = Some (Inl error_500, performs project2_events w)"
  by (simp add: run_simps broken_env_def broken_def healthy_def project2_events_def error_500_def)

lemma broken_syncProjects:
  "db w \<noteq> None \<Longrightarrow>
   syncProjects broken_env w =
     Some (Inl error_500, performs (broken_listing @ project1_events @ project2_events) w)"
  by (simp add: run_simps broken_env_def broken_def healthy_def project1_events_def
      project2_events_def error_500_def broken_listing_def)

text \<open>
  A run against the healthy remote from the empty store, and a second run from the store the
  first one left: the store is the same after both.
\<close>

theorem sync_idempotent_witness:
  "\<exists>w1 w2. runSync healthy_env demo_clock fresh = Some w1 \<and>
      runSync healthy_env demo_clock w1 = Some w2 \<and> db w2 = db w1"
proof -
  let ?x0 = "console_log (''[gitlab-sync] Starting sync at '' @ start_iso demo_clock) fresh"
  have "syncProjects healthy_env ?x0 = Some (Inr 1, performs healthy_events ?x0)"
    by (rule healthy_syncProjects) (simp add: fresh_def)
  from runSync_result [OF this] obtain w1 where h: "runSync healthy_env demo_clock fresh = Some w1"
    by blast
  from sync_idempotent [OF h, of demo_clock] h show ?thesis by blast
qed


text \<open>
  A remote that answers 503 to everything but the first page of one listing: the paginator
  throws on the second page of that listing, each syncer throws on the first page of its
  own, and a run ends on the first request it sends.
\<close>

theorem fetch_error_is_fatal_witness:
  "paginatedGet flaky_env ''g/items'' [] fresh =
     Some (Inl (Error ''GitLab API error: 503 Service Unavailable for g/items''),
           fresh\<lparr>trace := [Fetch ''g/items?per_page=100&page=1'',
                            Fetch ''g/items?per_page=100&page=2'']\<rparr>) \<and>
   syncMembers flaky_env (JNum 1) fresh =
     Some (Inl (error_503 ''g/api/v4/projects/1/members/all''),
           fresh\<lparr>trace := [Fetch ''g/api/v4/projects/1/members/all?per_page=100&page=1'']\<rparr>) \<and>
   syncCommits flaky_env (JNum 1) fresh =
     Some (Inl (error_503 ''g/api/v4/projects/1/repository/commits''),
           fresh\<lparr>trace := [Fetch
     ''g/api/v4/projects/1/repository/commits?all=true&with_stats=true&per_page=100&page=1'']\<rparr>) \<and>
   syncMergeRequests flaky_env (JNum 1) fresh =
     Some (Inl (error_503 ''g/api/v4/projects/1/merge_requests''),
           fresh\<lparr>trace := [Fetch
     ''g/api/v4/projects/1/merge_requests?state=all&per_page=100&page=1'']\<rparr>) \<and>
   syncIssues flaky_env (JNum 1) fresh =
     Some (Inl (error_503 ''g/api/v4/projects/1/issues''),
           fresh\<lparr>trace := [Fetch ''g/api/v4/projects/1/issues?state=all&per_page=100&page=1'']\<rparr>) \<and>
   runSync flaky_env demo_clock fresh =
     Some (fresh\<lparr>trace :=
       [ConsoleLog ''[gitlab-sync] Starting sync at 2024-01-01T00:00:00.000Z'',
        Fetch ''g/api/v4/projects?membership=true&per_page=100&page=1'',
        ConsoleError [''[gitlab-sync] Sync failed:'',
                      ''GitLab API error: 503 Service Unavailable for g/api/v4/projects'']]\<rparr>) \<and>
   run_failed (the (runSync flaky_env demo_clock fresh))"
proof -
  let ?x' = "fresh\<lparr>trace :=
       [ConsoleLog ''[gitlab-sync] Starting sync at 2024-01-01T00:00:00.000Z'',
        Fetch ''g/api/v4/projects?membership=true&per_page=100&page=1'',
        ConsoleError [''[gitlab-sync] Sync failed:'',
                      ''GitLab API error: 503 Service Unavailable for g/api/v4/projects'']]\<rparr>"
  have c: "db fresh \<noteq> None" by (simp add: fresh_def)
  have pre: "\<forall>i<length [[sample_record]]. [[sample_record]] ! i \<noteq> [] \<and>
       (\<exists>st' txt'. ok st' \<and>
          fetch flaky_env (page_url ''g/items'' [] (1 + int i)) = Response st' txt' ([[sample_record]] ! i))"
    by (simp add: flaky_env_def flaky_def page_url_def URLSearchParams_toString_def ok_def)
  have bad: "fetch flaky_env (page_url ''g/items'' [] (1 + int (length [[sample_record]])))
      = Response 503 ''Service Unavailable'' []" "\<not> ok 503"
    by (simp_all add: flaky_env_def flaky_def page_url_def URLSearchParams_toString_def ok_def)
  have m: "paginatedGet flaky_env (GITLAB_URL flaky_env @ ''/api/v4/projects/'' @ js_string (JNum 1)
        @ ''/members/all'') [] fresh =
      Some (Inl (error_503 ''g/api/v4/projects/1/members/all''),
           fresh\<lparr>trace := [Fetch ''g/api/v4/projects/1/members/all?per_page=100&page=1'']\<rparr>)"
    and co: "paginatedGet flaky_env (GITLAB_URL flaky_env @ ''/api/v4/projects/'' @ js_string (JNum 1)
        @ ''/repository/commits'') [(''all'', JBool True), (''with_stats'', JBool True)] fresh =
      Some (Inl (error_503 ''g/api/v4/projects/1/repository/commits''),
           fresh\<lparr>trace := [Fetch
     ''g/api/v4/projects/1/repository/commits?all=true&with_stats=true&per_page=100&page=1'']\<rparr>)"
    and mr: "paginatedGet flaky_env (GITLAB_URL flaky_env @ ''/api/v4/projects/'' @ js_string (JNum 1)
        @ ''/merge_requests'') [(''state'', JStr ''all'')] fresh =
      Some (Inl (error_503 ''g/api/v4/projects/1/merge_requests''),
           fresh\<lparr>trace := [Fetch
     ''g/api/v4/projects/1/merge_requests?state=all&per_page=100&page=1'']\<rparr>)"
    and iss: "paginatedGet flaky_env (GITLAB_URL flaky_env @ ''/api/v4/projects/'' @ js_string (JNum 1)
        @ ''/issues'') [(''state'', JStr ''all'')] fresh =
      Some (Inl (error_503 ''g/api/v4/projects/1/issues''),
           fresh\<lparr>trace := [Fetch ''g/api/v4/projects/1/issues?state=all&per_page=100&page=1'']\<rparr>)"
    by (simp_all add: eval_simps flaky_env_def flaky_def error_503_def fresh_def)
  have run: "runSync flaky_env demo_clock fresh = Some ?x'"
    by (simp add: runSync_unfold run_simps flaky_env_def flaky_def fresh_def demo_clock_def
        perform_def)
  have u: "Fetch ''g/api/v4/projects?membership=true&per_page=100&page=1''
      \<in> set (drop (length (trace fresh)) (trace ?x'))"
    "fetch flaky_env ''g/api/v4/projects?membership=true&per_page=100&page=1''
      = Response 503 ''Service Unavailable'' []"
    by (simp_all add: fresh_def flaky_env_def flaky_def)
  note t = fetch_error_is_fatal [of "[[sample_record]]" flaky_env "''g/items''" "[]" 503
      "''Service Unavailable''" "[]" fresh fresh "JNum 1"
      "error_503 ''g/api/v4/projects/1/members/all''"
      "fresh\<lparr>trace := [Fetch ''g/api/v4/projects/1/members/all?per_page=100&page=1'']\<rparr>"
      "error_503 ''g/api/v4/projects/1/repository/commits''"
      "fresh\<lparr>trace := [Fetch
     ''g/api/v4/projects/1/repository/commits?all=true&with_stats=true&per_page=100&page=1'']\<rparr>"
      "error_503 ''g/api/v4/projects/1/merge_requests''"
      "fresh\<lparr>trace := [Fetch
     ''g/api/v4/projects/1/merge_requests?state=all&per_page=100&page=1'']\<rparr>"
      "error_503 ''g/api/v4/projects/1/issues''"
      "fresh\<lparr>trace := [Fetch ''g/api/v4/projects/1/issues?state=all&per_page=100&page=1'']\<rparr>"
      demo_clock fresh ?x' "''g/api/v4/projects?membership=true&per_page=100&page=1''"
      503 "''Service Unavailable''" "[]"]
  from t pre bad have 1: "paginatedGet flaky_env ''g/items'' [] fresh =
     Some (Inl (Error ''GitLab API error: 503 Service Unavailable for g/items''),
           fresh\<lparr>trace := [Fetch ''g/items?per_page=100&page=1'',
                            Fetch ''g/items?per_page=100&page=2'']\<rparr>)"
    by (simp add: page_url_def URLSearchParams_toString_def fresh_def)
  from t c m co mr iss have 2: "syncMembers flaky_env (JNum 1) fresh =
     Some (Inl (error_503 ''g/api/v4/projects/1/members/all''),
           fresh\<lparr>trace := [Fetch ''g/api/v4/projects/1/members/all?per_page=100&page=1'']\<rparr>)"
    "syncCommits flaky_env (JNum 1) fresh =
     Some (Inl (error_503 ''g/api/v4/projects/1/repository/commits''),
           fresh\<lparr>trace := [Fetch
     ''g/api/v4/projects/1/repository/commits?all=true&with_stats=true&per_page=100&page=1'']\<rparr>)"
    "syncMergeRequests flaky_env (JNum 1) fresh =
     Some (Inl (error_503 ''g/api/v4/projects/1/merge_requests''),
           fresh\<lparr>trace := [Fetch
     ''g/api/v4/projects/1/merge_requests?state=all&per_page=100&page=1'']\<rparr>)"
    "syncIssues flaky_env (JNum 1) fresh =
     Some (Inl (error_503 ''g/api/v4/projects/1/issues''),
           fresh\<lparr>trace := [Fetch ''g/api/v4/projects/1/issues?state=all&per_page=100&page=1'']\<rparr>)"
    by blast+
  from t run u bad(2) have 3: "run_failed ?x'" by blast
  from 1 2 3 run show ?thesis by simp
qed

lemma writes_to_simps [simp]:
  "writes_to c [] = []"
  "writes_to c (ev # evs) = ops_of c ev @ writes_to c evs"
  "writes_to c (evs @ evs') = writes_to c evs @ writes_to c evs'"
  by (simp_all add: writes_to_def)

lemma writes_to_quiet:
  "list_all (\<lambda>ev. target ev = None) evs \<Longrightarrow> writes_to c evs = []"
proof (induction evs)
  case Nil
  then show ?case by simp
next
  case (Cons ev evs)
  then show ?case by (cases ev) simp_all
qed

lemma unique_store_replay:
  assumes "list_all conforms evs" "unique_store s"
  shows "unique_store (replay evs s)"
  using assms unfolding unique_store_def list_all_iff
  by (auto intro: replay_unique [unfolded list_all_iff])

section \<open>Natural keys\<close>


section \<open>Partial replacement\<close>

text \<open>
  Claim C10 (partial-replace upsert semantics). First conjunct: the fields each of the five
  mappers writes are the mapped fields of its collection, whatever the record. Second
  conjunct: an upsert whose filter matches a stored document changes the first such
  document only, in place; every field listed in \<^verbatim>\<open>$set\<close> holds the new value afterwards and
  every other field of the document is as it was. Third conjunct: over a whole run, every
  document that was in the store before is still there, at its place, and its fields
  outside the mapped fields of its collection are unchanged.
\<close>

theorem upsert_partial_replace:
  "(map fst (project_doc p) = mapped_fields ''projects'' \<and>
    map fst (op_set (member_op pid m)) = mapped_fields ''members'' \<and>
    map fst (op_set (commit_op pid c)) = mapped_fields ''commits'' \<and>
    map fst (op_set (mr_op pid mr)) = mapped_fields ''merge_requests'' \<and>
    (\<forall>u. issue_op pid i = Inr u \<longrightarrow> map fst (op_set u) = mapped_fields ''issues'')) \<and>
   (distinct (map fst (op_set u)) \<and> (\<forall>x\<in>set pre. \<not> matches (op_filter u) x) \<and>
    matches (op_filter u) d \<longrightarrow>
      upsert u (pre @ d # post) = pre @ set_fields (op_set u) d # post \<and>
      (\<forall>(f, v)\<in>set (op_set u). map_of (set_fields (op_set u) d) f = Some v) \<and>
      (\<forall>g. g \<notin> fst ` set (op_set u) \<longrightarrow> map_of (set_fields (op_set u) d) g = map_of d g)) \<and>
   (runSync e clk w = Some w' \<and> db w = Some s \<longrightarrow>
      (\<exists>s'. db w' = Some s' \<and>
         (\<forall>col. length (s col) \<le> length (s' col) \<and>
            (\<forall>i<length (s col). \<forall>g. g \<notin> set (mapped_fields col) \<longrightarrow>
               map_of (s' col ! i) g = map_of (s col ! i) g))))"
proof -
  have p1: "map fst (project_doc p) = mapped_fields ''projects'' \<and>
    map fst (op_set (member_op pid m)) = mapped_fields ''members'' \<and>
    map fst (op_set (commit_op pid c)) = mapped_fields ''commits'' \<and>
    map fst (op_set (mr_op pid mr)) = mapped_fields ''merge_requests'' \<and>
    (\<forall>u. issue_op pid i = Inr u \<longrightarrow> map fst (op_set u) = mapped_fields ''issues'')"
    by (auto simp: project_doc_def member_op_def commit_op_def mr_op_def issue_op_def
        mapped_fields_def Let_def split: sum.splits)
  have p2: "distinct (map fst (op_set u)) \<and> (\<forall>x\<in>set pre. \<not> matches (op_filter u) x) \<and>
    matches (op_filter u) d \<longrightarrow>
      upsert u (pre @ d # post) = pre @ set_fields (op_set u) d # post \<and>
      (\<forall>(f, v)\<in>set (op_set u). map_of (set_fields (op_set u) d) f = Some v) \<and>
      (\<forall>g. g \<notin> fst ` set (op_set u) \<longrightarrow> map_of (set_fields (op_set u) d) g = map_of d g)"
  proof (intro impI, elim conjE)
    assume dist: "distinct (map fst (op_set u))"
      and pre: "\<forall>x\<in>set pre. \<not> matches (op_filter u) x" and m: "matches (op_filter u) d"
    have a: "upsert u (pre @ d # post) = pre @ set_fields (op_set u) d # post"
      using pre m by (induction pre) simp_all
    have b: "\<forall>(f, v)\<in>set (op_set u). map_of (set_fields (op_set u) d) f = Some v"
      using dist by (auto simp: map_of_set_fields)
    have c: "\<forall>g. g \<notin> fst ` set (op_set u) \<longrightarrow> map_of (set_fields (op_set u) d) g = map_of d g"
      by (simp add: frame_set_fields)
    from a b c show "upsert u (pre @ d # post) = pre @ set_fields (op_set u) d # post \<and>
      (\<forall>(f, v)\<in>set (op_set u). map_of (set_fields (op_set u) d) f = Some v) \<and>
      (\<forall>g. g \<notin> fst ` set (op_set u) \<longrightarrow> map_of (set_fields (op_set u) d) g = map_of d g)"
      by blast
  qed
  have p3: "runSync e clk w = Some w' \<and> db w = Some s \<longrightarrow>
      (\<exists>s'. db w' = Some s' \<and>
         (\<forall>col. length (s col) \<le> length (s' col) \<and>
            (\<forall>i<length (s col). \<forall>g. g \<notin> set (mapped_fields col) \<longrightarrow>
               map_of (s' col ! i) g = map_of (s col ! i) g)))"
  proof (intro impI, elim conjE)
    assume run: "runSync e clk w = Some w'" and s: "db w = Some s"
    from runSync_replay [OF run s] obtain evs where evs: "list_all conforms evs"
      "db w' = Some (replay evs s)" by metis
    from replay_frame [OF evs(1)] evs(2)
    show "\<exists>s'. db w' = Some s' \<and>
         (\<forall>col. length (s col) \<le> length (s' col) \<and>
            (\<forall>i<length (s col). \<forall>g. g \<notin> set (mapped_fields col) \<longrightarrow>
               map_of (s' col ! i) g = map_of (s col ! i) g))"
      by blast
  qed
  show ?thesis by (rule conjI [OF p1 conjI [OF p2 p3]])
qed

lemma healthy_run:
  assumes "db w = Some s"
  shows "runSync healthy_env clk w =
     Some ((performs healthy_events (console_log (''[gitlab-sync] Starting sync at '' @ start_iso clk) w))
       \<lparr>trace := trace w @ ConsoleLog (''[gitlab-sync] Starting sync at '' @ start_iso clk) #
           healthy_events @ summary clk 1 (replay healthy_events s)\<rparr>)"
proof -
  let ?x0 = "console_log (''[gitlab-sync] Starting sync at '' @ start_iso clk) w"
  have "syncProjects healthy_env ?x0 = Some (Inr 1, performs healthy_events ?x0)"
    by (rule healthy_syncProjects) (simp add: assms)
  then show ?thesis
    by (simp add: runSync_unfold db_performs assms)
qed

lemma opened_after:
  "replay healthy_events opened_store ''merge_requests'' = [merged_doc]"
  by (simp add: healthy_events_def opened_store_def merged_doc_def store_simps)

lemma opened_unique: "unique_store opened_store"
  by (simp add: unique_store_def partitions_def unique_keys_def opened_store_def key_tuple_def
      key_fields_def)


text \<open>
  The stored merge request carries two fields the service does not map, \<^verbatim>\<open>_id\<close> and
  \<^verbatim>\<open>reviewed\<close>; both survive the upsert and the run.
\<close>

theorem upsert_partial_replace_witness:
  "upsert (serialize_op (mr_op (JNum 1) (mr7 ''merged''))) (opened_store ''merge_requests'')
     = [merged_doc] \<and>
   map_of merged_doc ''state'' = Some (JStr ''merged'') \<and>
   map_of merged_doc ''reviewed'' = Some (JBool True) \<and>
   (\<exists>w' s'. runSync healthy_env demo_clock opened_world = Some w' \<and> db w' = Some s' \<and>
      map_of (s' ''merge_requests'' ! 0) ''_id'' = Some (JStr ''x1'') \<and>
      map_of (s' ''merge_requests'' ! 0) ''reviewed'' = Some (JBool True))"
proof -
  let ?u = "serialize_op (mr_op (JNum 1) (mr7 ''merged''))"
  let ?d = "[(''_id'', JStr ''x1''), (''project_id'', JNum 1), (''iid'', JNum 7),
          (''title'', JStr ''fix''), (''state'', JStr ''opened''), (''reviewed'', JBool True)]"
  let ?w' = "(performs healthy_events
       (console_log (''[gitlab-sync] Starting sync at '' @ start_iso demo_clock) opened_world))
       \<lparr>trace := trace opened_world @
           ConsoleLog (''[gitlab-sync] Starting sync at '' @ start_iso demo_clock) #
           healthy_events @ summary demo_clock 1 (replay healthy_events opened_store)\<rparr>"
  note t = upsert_partial_replace [of project1 "JNum 1" member10 commit_abc "mr7 ''merged''" "[]"
      ?u "[]" ?d "[]" healthy_env demo_clock opened_world ?w' opened_store]
  have s: "db opened_world = Some opened_store" by (simp add: opened_world_def)
  have run: "runSync healthy_env demo_clock opened_world = Some ?w'"
    using s by (rule healthy_run)
  have h: "distinct (map fst (op_set ?u))" "\<forall>x\<in>set []. \<not> matches (op_filter ?u) x"
    "matches (op_filter ?u) ?d"
    by (simp_all add: store_simps)
  from t h have a: "upsert ?u ([] @ ?d # []) = [] @ set_fields (op_set ?u) ?d # []"
    and b: "\<forall>g. g \<notin> fst ` set (op_set ?u) \<longrightarrow> map_of (set_fields (op_set ?u) ?d) g = map_of ?d g"
    by blast+
  have sf: "set_fields (op_set ?u) ?d = merged_doc"
    by (simp add: store_simps merged_doc_def)
  from a sf have 1: "upsert ?u (opened_store ''merge_requests'') = [merged_doc]"
    by (simp add: opened_store_def)
  have 2: "map_of merged_doc ''state'' = Some (JStr ''merged'')"
    by (simp add: merged_doc_def)
  have "''reviewed'' \<notin> fst ` set (op_set ?u)" by (simp add: store_simps)
  from b [rule_format, OF this]
  have 3: "map_of merged_doc ''reviewed'' = Some (JBool True)"
    unfolding sf by simp
  from t run s obtain s' where s': "db ?w' = Some s'"
    "\<forall>col. length (opened_store col) \<le> length (s' col) \<and>
        (\<forall>i<length (opened_store col). \<forall>g. g \<notin> set (mapped_fields col) \<longrightarrow>
           map_of (s' col ! i) g = map_of (opened_store col ! i) g)" by blast
  from s'(2) [rule_format, of "''merge_requests''"]
  have "map_of (s' ''merge_requests'' ! 0) ''_id'' = Some (JStr ''x1'')"
    "map_of (s' ''merge_requests'' ! 0) ''reviewed'' = Some (JBool True)"
    by (simp_all add: opened_store_def mapped_fields_def)
  with 1 2 3 run s'(1) show ?thesis by blast
qed

section \<open>Order of the writes and abort\<close>

lemma write_targets_simps [simp]:
  "write_targets [] = []"
  "write_targets (ev # evs) = (case target ev of None \<Rightarrow> [] | Some c \<Rightarrow> [c]) @ write_targets evs"
  "write_targets (evs @ evs') = write_targets evs @ write_targets evs'"
  by (simp_all add: write_targets_def)

lemma write_targets_quiet:
  "list_all (\<lambda>ev. target ev = None) evs \<Longrightarrow> write_targets evs = []"
  by (induction evs) simp_all

lemma owned_quiet:
  "list_all (\<lambda>ev. target ev = None) evs \<Longrightarrow> list_all (owned pid) evs"
proof (induction evs)
  case Nil
  then show ?case by simp
next
  case (Cons ev evs)
  then show ?case by (cases ev) simp_all
qed

lemma in_order_five:
  "optional ''members'' a \<Longrightarrow> optional ''commits'' b \<Longrightarrow> optional ''merge_requests'' c \<Longrightarrow>
   optional ''issues'' d \<Longrightarrow>
   in_order (''projects'' # a @ b @ c @ d)
     [''projects'', ''members'', ''commits'', ''merge_requests'', ''issues'']"
  by (auto simp: optional_def)

lemma andThen_cases:
  assumes "andThen m f = Some (r, w')"
  shows "(\<exists>err. m = Some (Inl err, w') \<and> r = Inl err) \<or>
         (\<exists>x w1. m = Some (Inr x, w1) \<and> f x w1 = Some (r, w'))"
  using assms by (auto simp: andThen_def split: option.splits sum.splits prod.splits)

lemma syncer_shape:
  assumes def: "\<And>v. f v =
      andThen (getDB v) (\<lambda>_ v. andThen (paginatedGet e url params v) (\<lambda>xs v.
        if length xs = 0 then Some (Inr 0, v)
        else (case g xs of
                Inl err \<Rightarrow> Some (Inl err, v)
              | Inr ops \<Rightarrow> andThen (bulkWrite c ops v) (\<lambda>_ v. Some (Inr (length ops), v)))))"
    and own: "\<And>xs ops. g xs = Inr ops \<Longrightarrow>
      list_all (\<lambda>u. map_of (op_filter u) ''project_id'' = Some pid) ops"
    and run: "f v = Some (r, v')"
  shows "\<exists>evs. v' = performs evs v \<and> list_all (owned pid) evs \<and>
     (write_targets evs = [] \<or> write_targets evs = [c] \<and> (\<exists>n. r = Inr n))"
proof (cases "db v")
  case None
  with run def [of v] have "v' = performs [] v" by (simp add: getDB_def)
  then show ?thesis by (intro exI [of _ "[]"]) simp
next
  case (Some s)
  then have conn: "getDB v = Some (Inr (), v)" by (simp add: getDB_def)
  from run def [of v] conn obtain r1 v1 where pg: "paginatedGet e url params v = Some (r1, v1)"
    by (cases "paginatedGet e url params v") auto
  from paginatedGet_fetches [OF pg] obtain evs where evs: "v1 = performs evs v"
    "list_all (\<lambda>ev. target ev = None) evs" by blast
  then have quiet: "write_targets evs = []" "list_all (owned pid) evs"
    by (simp_all add: write_targets_quiet owned_quiet)
  show ?thesis
  proof (cases r1)
    case (Inl err)
    with run def [of v] conn pg have "v' = v1" by simp
    with evs(1) quiet show ?thesis by blast
  next
    case (Inr xs)
    show ?thesis
    proof (cases "xs = []")
      case True
      with run def [of v] conn pg Inr have "v' = v1" by simp
      with evs(1) quiet show ?thesis by blast
    next
      case False
      show ?thesis
      proof (cases "g xs")
        case (Inl err)
        with run def [of v] conn pg Inr False have "v' = v1" by simp
        with evs(1) quiet show ?thesis by blast
      next
        case ops: (Inr ops)
        show ?thesis
        proof (cases "ops = []")
          case True
          with run def [of v] conn pg Inr False ops have "v' = v1" by (simp add: bulkWrite_def)
          with evs(1) quiet show ?thesis by blast
        next
          case nonempty: False
          with run def [of v] conn pg Inr False ops
          have "v' = performs (evs @ [BulkWrite c ops]) v" "r = Inr (length ops)"
            by (simp_all add: bulkWrite_def evs(1))
          moreover have "write_targets (evs @ [BulkWrite c ops]) = [c]"
            "list_all (owned pid) (evs @ [BulkWrite c ops])"
            using quiet own [OF ops] by simp_all
          ultimately show ?thesis by blast
        qed
      qed
    qed
  qed
qed

lemma syncMembers_shape:
  assumes "syncMembers e pid v = Some (r, v')"
  shows "\<exists>evs. v' = performs evs v \<and> list_all (owned pid) evs \<and>
       (write_targets evs = [] \<or> write_targets evs = [''members''] \<and> (\<exists>n. r = Inr n))"
  using assms
  by (rule syncer_shape [where f = "syncMembers e pid" and g = "\<lambda>xs. Inr (map (member_op pid) xs)" and c = "''members''" and pid = pid
        and e = e and params = "[]"
        and url = "GITLAB_URL e @ ''/api/v4/projects/'' @ js_string pid @ ''/members/all''", rotated 2])
    (simp_all add: syncMembers_def Let_def member_op_def list_all_iff cong: if_cong)

lemma syncMembers_targets:
  "\<forall>r v'. syncMembers e pid v = Some (r, v') \<longrightarrow>
     (\<exists>evs. v' = performs evs v \<and> list_all (owned pid) evs \<and>
       (write_targets evs = [] \<or> write_targets evs = [''members''] \<and> (\<exists>n. r = Inr n)))"
  using syncMembers_shape by blast

lemma syncCommits_shape:
  assumes "syncCommits e pid v = Some (r, v')"
  shows "\<exists>evs. v' = performs evs v \<and> list_all (owned pid) evs \<and>
       (write_targets evs = [] \<or> write_targets evs = [''commits''] \<and> (\<exists>n. r = Inr n))"
  using assms
  by (rule syncer_shape [where f = "syncCommits e pid" and g = "\<lambda>xs. Inr (map (commit_op pid) xs)" and c = "''commits''" and pid = pid
        and e = e and params = "[(''all'', JBool True), (''with_stats'', JBool True)]"
        and url = "GITLAB_URL e @ ''/api/v4/projects/'' @ js_string pid @ ''/repository/commits''", rotated 2])
    (simp_all add: syncCommits_def Let_def commit_op_def list_all_iff cong: if_cong)

lemma syncCommits_targets:
  "\<forall>r v'. syncCommits e pid v = Some (r, v') \<longrightarrow>
     (\<exists>evs. v' = performs evs v \<and> list_all (owned pid) evs \<and>
       (write_targets evs = [] \<or> write_targets evs = [''commits''] \<and> (\<exists>n. r = Inr n)))"
  using syncCommits_shape by blast

lemma syncMergeRequests_shape:
  assumes "syncMergeRequests e pid v = Some (r, v')"
  shows "\<exists>evs. v' = performs evs v \<and> list_all (owned pid) evs \<and>
       (write_targets evs = [] \<or> write_targets evs = [''merge_requests''] \<and> (\<exists>n. r = Inr n))"
  using assms
  by (rule syncer_shape [where f = "syncMergeRequests e pid" and g = "\<lambda>xs. Inr (map (mr_op pid) xs)" and c = "''merge_requests''" and pid = pid
        and e = e and params = "[(''state'', JStr ''all'')]"
        and url = "GITLAB_URL e @ ''/api/v4/projects/'' @ js_string pid @ ''/merge_requests''", rotated 2])
    (simp_all add: syncMergeRequests_def Let_def mr_op_def list_all_iff cong: if_cong)

lemma syncMergeRequests_targets:
  "\<forall>r v'. syncMergeRequests e pid v = Some (r, v') \<longrightarrow>
     (\<exists>evs. v' = performs evs v \<and> list_all (owned pid) evs \<and>
       (write_targets evs = [] \<or> write_targets evs = [''merge_requests''] \<and> (\<exists>n. r = Inr n)))"
  using syncMergeRequests_shape by blast

lemma issue_owned:
  assumes "traverse (issue_op pid) xs = Inr ops"
  shows "list_all (\<lambda>u. map_of (op_filter u) ''project_id'' = Some pid) ops"
  using assms
  by (rule traverse_all) (auto simp: issue_op_def Let_def split: sum.splits)

lemma syncIssues_shape:
  assumes "syncIssues e pid v = Some (r, v')"
  shows "\<exists>evs. v' = performs evs v \<and> list_all (owned pid) evs \<and>
       (write_targets evs = [] \<or> write_targets evs = [''issues''] \<and> (\<exists>n. r = Inr n))"
  using assms
  by (rule syncer_shape [where f = "syncIssues e pid" and g = "traverse (issue_op pid)" and c = "''issues''" and pid = pid
        and e = e and params = "[(''state'', JStr ''all'')]"
        and url = "GITLAB_URL e @ ''/api/v4/projects/'' @ js_string pid @ ''/issues''", rotated 2])
    (simp_all add: syncIssues_def Let_def issue_owned cong: if_cong)

lemma syncIssues_targets:
  "\<forall>r v'. syncIssues e pid v = Some (r, v') \<longrightarrow>
     (\<exists>evs. v' = performs evs v \<and> list_all (owned pid) evs \<and>
       (write_targets evs = [] \<or> write_targets evs = [''issues''] \<and> (\<exists>n. r = Inr n)))"
  using syncIssues_shape by blast

lemma loop_step:
  "syncProjects_loop e (p # rest) w =
     andThen (syncMembers e (property p ''id'') (project_saved p w)) (\<lambda>n w.
     andThen (syncCommits e (property p ''id'')
        (console_log (''[gitlab-sync]   '' @ decimal_nat n @ '' members'') w)) (\<lambda>n w.
     andThen (syncMergeRequests e (property p ''id'')
        (console_log (''[gitlab-sync]   '' @ decimal_nat n @ '' commits'') w)) (\<lambda>n w.
     andThen (syncIssues e (property p ''id'')
        (console_log (''[gitlab-sync]   '' @ decimal_nat n @ '' merge requests'') w)) (\<lambda>n w.
     syncProjects_loop e rest
        (console_log (''[gitlab-sync]   '' @ decimal_nat n @ '' issues'') w)))))"
  by (simp add: Let_def updateOne_def project_saved_def)

lemma project_saved_performs:
  "\<exists>evs. project_saved p w = performs evs w \<and> list_all (owned (property p ''id'')) evs \<and>
     write_targets evs = [''projects'']"
  by (intro exI [of _ "[ConsoleLog (''[gitlab-sync] --- ''
        @ js_string (property p ''path_with_namespace'')
        @ '' (id='' @ js_string (property p ''id'') @ '') ---''),
      UpdateOne ''projects'' [(''project_id'', property (project_doc p) ''project_id'')]
        (project_doc p),
      ConsoleLog ''[gitlab-sync]   project saved'']"])
    (simp add: project_saved_def console_log_def project_doc_def property_def)

lemma optional_Nil [simp]: "optional c []"
  by (simp add: optional_def)

lemma chain:
  assumes pre: "v0 = performs evs0 v" "write_targets evs0 = t0" "list_all P evs0"
    and run: "andThen (s v0) f = Some (r, w')"
    and shape: "\<forall>r1 u1. s v0 = Some (r1, u1) \<longrightarrow>
       (\<exists>evs. u1 = performs evs v0 \<and> list_all P evs \<and>
         (write_targets evs = [] \<or> write_targets evs = [c] \<and> (\<exists>n. r1 = Inr n)))"
  shows "\<exists>evs t. optional c t \<and> write_targets evs = t0 @ t \<and> list_all P evs \<and>
     ((w' = performs evs v \<and> (\<exists>err. r = Inl err)) \<or>
      (\<exists>x. f x (performs evs v) = Some (r, w')))"
proof -
  from andThen_cases [OF run] show ?thesis
  proof (elim disjE exE conjE)
    fix err assume m: "s v0 = Some (Inl err, w')" and r: "r = Inl err"
    from shape [rule_format, OF m] obtain evs where "w' = performs evs v0" "write_targets evs = []"
      "list_all P evs" by auto
    with pre r have "optional c [] \<and> write_targets (evs0 @ evs) = t0 @ [] \<and>
        list_all P (evs0 @ evs) \<and>
        w' = performs (evs0 @ evs) v \<and> (\<exists>err. r = Inl err)" by simp
    then show ?thesis by blast
  next
    fix x w1 assume m: "s v0 = Some (Inr x, w1)" and f: "f x w1 = Some (r, w')"
    from shape [rule_format, OF m] obtain evs where evs: "w1 = performs evs v0"
      "write_targets evs = [] \<or> write_targets evs = [c]" "list_all P evs" by auto
    then have "optional c (write_targets evs)" by (simp add: optional_def)
    moreover have "write_targets (evs0 @ evs) = t0 @ write_targets evs"
      "list_all P (evs0 @ evs)"
      using pre evs(3) by simp_all
    moreover have "f x (performs (evs0 @ evs) v) = Some (r, w')"
      using f evs(1) pre by simp
    ultimately show ?thesis by blast
  qed
qed

lemma body_order:
  assumes "syncProjects_loop e [p] w = Some (r, w')"
  shows "\<exists>evs. w' = performs evs w \<and> list_all (owned (property p ''id'')) evs \<and>
     take 1 (write_targets evs) = [''projects''] \<and>
     in_order (write_targets evs)
       [''projects'', ''members'', ''commits'', ''merge_requests'', ''issues'']"
proof -
  let ?pid = "property p ''id''"
  have fin: "\<exists>evs. w' = performs evs w \<and> list_all (owned ?pid) evs \<and>
     take 1 (write_targets evs) = [''projects''] \<and>
     in_order (write_targets evs)
       [''projects'', ''members'', ''commits'', ''merge_requests'', ''issues'']"
    if "w' = performs evs w" "list_all (owned ?pid) evs"
      "write_targets evs = ''projects'' # a @ b @ c @ d"
      "optional ''members'' a" "optional ''commits'' b" "optional ''merge_requests'' c"
      "optional ''issues'' d" for evs a b c d
    using that in_order_five [of a b c d] by (intro exI [of _ evs]) simp
  from project_saved_performs [of p w] obtain evsP where P:
    "project_saved p w = performs evsP w" "write_targets evsP = [''projects'']"
    "list_all (owned ?pid) evsP" by blast
  note run = assms [unfolded loop_step]
  from chain [where P = "owned ?pid" and s = "syncMembers e ?pid" and c = "''members''", OF P run syncMembers_targets] obtain evs1 a where 1:
    "optional ''members'' a" "write_targets evs1 = [''projects''] @ a"
    "list_all (owned ?pid) evs1"
    "(w' = performs evs1 w \<and> (\<exists>err. r = Inl err)) \<or>
     (\<exists>n. andThen (syncCommits e ?pid
        (console_log (''[gitlab-sync]   '' @ decimal_nat n @ '' members'') (performs evs1 w)))
        (\<lambda>n w.
     andThen (syncMergeRequests e ?pid
        (console_log (''[gitlab-sync]   '' @ decimal_nat n @ '' commits'') w)) (\<lambda>n w.
     andThen (syncIssues e ?pid
        (console_log (''[gitlab-sync]   '' @ decimal_nat n @ '' merge requests'') w)) (\<lambda>n w.
     syncProjects_loop e []
        (console_log (''[gitlab-sync]   '' @ decimal_nat n @ '' issues'') w)))) = Some (r, w'))"
    by blast
  from 1(4) show ?thesis
  proof (elim disjE exE conjE)
    assume "w' = performs evs1 w"
    with 1 show ?thesis by (intro fin [of evs1 a "[]" "[]" "[]"]) simp_all
  next
    fix n1 assume run2: "andThen (syncCommits e ?pid
        (console_log (''[gitlab-sync]   '' @ decimal_nat n1 @ '' members'') (performs evs1 w)))
        (\<lambda>n w.
     andThen (syncMergeRequests e ?pid
        (console_log (''[gitlab-sync]   '' @ decimal_nat n @ '' commits'') w)) (\<lambda>n w.
     andThen (syncIssues e ?pid
        (console_log (''[gitlab-sync]   '' @ decimal_nat n @ '' merge requests'') w)) (\<lambda>n w.
     syncProjects_loop e []
        (console_log (''[gitlab-sync]   '' @ decimal_nat n @ '' issues'') w)))) = Some (r, w')"
    let ?l1 = "ConsoleLog (''[gitlab-sync]   '' @ decimal_nat n1 @ '' members'')"
    have pre2: "console_log (''[gitlab-sync]   '' @ decimal_nat n1 @ '' members'') (performs evs1 w)
       = performs (evs1 @ [?l1]) w" "write_targets (evs1 @ [?l1]) = ''projects'' # a"
      "list_all (owned ?pid) (evs1 @ [?l1])"
      using 1(2,3) by (simp_all add: console_log_def)
    from chain [where P = "owned ?pid" and s = "syncCommits e ?pid" and c = "''commits''", OF pre2 run2 syncCommits_targets] obtain evs2 b where 2:
      "optional ''commits'' b" "write_targets evs2 = (''projects'' # a) @ b"
      "list_all (owned ?pid) evs2"
      "(w' = performs evs2 w \<and> (\<exists>err. r = Inl err)) \<or>
       (\<exists>n. andThen (syncMergeRequests e ?pid
          (console_log (''[gitlab-sync]   '' @ decimal_nat n @ '' commits'') (performs evs2 w)))
          (\<lambda>n w.
       andThen (syncIssues e ?pid
          (console_log (''[gitlab-sync]   '' @ decimal_nat n @ '' merge requests'') w)) (\<lambda>n w.
       syncProjects_loop e []
          (console_log (''[gitlab-sync]   '' @ decimal_nat n @ '' issues'') w))) = Some (r, w'))"
      by blast
    from 2(4) show ?thesis
    proof (elim disjE exE conjE)
      assume "w' = performs evs2 w"
      with 1 2 show ?thesis by (intro fin [of evs2 a b "[]" "[]"]) simp_all
    next
      fix n2 assume run3: "andThen (syncMergeRequests e ?pid
          (console_log (''[gitlab-sync]   '' @ decimal_nat n2 @ '' commits'') (performs evs2 w)))
          (\<lambda>n w.
       andThen (syncIssues e ?pid
          (console_log (''[gitlab-sync]   '' @ decimal_nat n @ '' merge requests'') w)) (\<lambda>n w.
       syncProjects_loop e []
          (console_log (''[gitlab-sync]   '' @ decimal_nat n @ '' issues'') w))) = Some (r, w')"
      let ?l2 = "ConsoleLog (''[gitlab-sync]   '' @ decimal_nat n2 @ '' commits'')"
      have pre3: "console_log (''[gitlab-sync]   '' @ decimal_nat n2 @ '' commits'')
          (performs evs2 w) = performs (evs2 @ [?l2]) w"
        "write_targets (evs2 @ [?l2]) = ''projects'' # a @ b"
        "list_all (owned ?pid) (evs2 @ [?l2])"
        using 2(2,3) by (simp_all add: console_log_def)
      from chain [where P = "owned ?pid" and s = "syncMergeRequests e ?pid" and c = "''merge_requests''", OF pre3 run3 syncMergeRequests_targets] obtain evs3 c where 3:
        "optional ''merge_requests'' c" "write_targets evs3 = (''projects'' # a @ b) @ c"
        "list_all (owned ?pid) evs3"
        "(w' = performs evs3 w \<and> (\<exists>err. r = Inl err)) \<or>
         (\<exists>n. andThen (syncIssues e ?pid
            (console_log (''[gitlab-sync]   '' @ decimal_nat n @ '' merge requests'')
               (performs evs3 w))) (\<lambda>n w.
         syncProjects_loop e []
            (console_log (''[gitlab-sync]   '' @ decimal_nat n @ '' issues'') w)) = Some (r, w'))"
        by blast
      from 3(4) show ?thesis
      proof (elim disjE exE conjE)
        assume "w' = performs evs3 w"
        with 1 2 3 show ?thesis by (intro fin [of evs3 a b c "[]"]) simp_all
      next
        fix n3 assume run4: "andThen (syncIssues e ?pid
            (console_log (''[gitlab-sync]   '' @ decimal_nat n3 @ '' merge requests'')
               (performs evs3 w))) (\<lambda>n w.
         syncProjects_loop e []
            (console_log (''[gitlab-sync]   '' @ decimal_nat n @ '' issues'') w)) = Some (r, w')"
        let ?l3 = "ConsoleLog (''[gitlab-sync]   '' @ decimal_nat n3 @ '' merge requests'')"
        have pre4: "console_log (''[gitlab-sync]   '' @ decimal_nat n3 @ '' merge requests'')
            (performs evs3 w) = performs (evs3 @ [?l3]) w"
          "write_targets (evs3 @ [?l3]) = ''projects'' # a @ b @ c"
          "list_all (owned ?pid) (evs3 @ [?l3])"
          using 3(2,3) by (simp_all add: console_log_def)
        from chain [where P = "owned ?pid" and s = "syncIssues e ?pid" and c = "''issues''", OF pre4 run4 syncIssues_targets] obtain evs4 d where 4:
          "optional ''issues'' d" "write_targets evs4 = (''projects'' # a @ b @ c) @ d"
          "list_all (owned ?pid) evs4"
          "(w' = performs evs4 w \<and> (\<exists>err. r = Inl err)) \<or>
           (\<exists>n. syncProjects_loop e []
              (console_log (''[gitlab-sync]   '' @ decimal_nat n @ '' issues'') (performs evs4 w))
                = Some (r, w'))"
          by blast
        from 4(4) show ?thesis
        proof (elim disjE exE conjE)
          assume "w' = performs evs4 w"
          with 1 2 3 4 show ?thesis by (intro fin [of evs4 a b c d]) simp_all
        next
          fix n4 assume "syncProjects_loop e []
              (console_log (''[gitlab-sync]   '' @ decimal_nat n4 @ '' issues'') (performs evs4 w))
                = Some (r, w')"
          then have "w' = performs (evs4 @ [ConsoleLog (''[gitlab-sync]   '' @ decimal_nat n4
              @ '' issues'')]) w" by (simp add: console_log_def)
          with 1 2 3 4 show ?thesis
            by (intro fin [of "evs4 @ [ConsoleLog (''[gitlab-sync]   '' @ decimal_nat n4
              @ '' issues'')]" a b c d]) simp_all
        qed
      qed
    qed
  qed
qed

lemma map_of_serialize: "map_of (serialize d) f = map_option bson (map_of d f)"
  by (induction d) (auto simp: serialize_def)

lemma foreign_upsert:
  assumes "map_of (op_filter u) ''project_id'' = Some k" "map_of d ''project_id'' \<noteq> Some k"
    and "d \<in> set c"
  shows "d \<in> set (upsert u c)"
proof -
  from assms(1) have "(''project_id'', k) \<in> set (op_filter u)" by (rule map_of_SomeD)
  with assms(2) have "\<not> matches (op_filter u) d" by (auto simp: matches_def list_all_iff)
  with assms(3) show ?thesis by (rule untouched_upsert)
qed

lemma foreign_fold_upsert:
  assumes "list_all (\<lambda>u. map_of (op_filter u) ''project_id'' = Some k) ops"
    and "map_of d ''project_id'' \<noteq> Some k" "d \<in> set c"
  shows "d \<in> set (fold upsert ops c)"
  using assms by (induction ops arbitrary: c) (simp_all add: foreign_upsert)

lemma owned_ops:
  "owned pid ev \<Longrightarrow>
   list_all (\<lambda>u. map_of (op_filter u) ''project_id'' = Some (bson pid)) (ops_of c ev)"
  by (cases ev) (auto simp: serialize_op_def map_of_serialize list_all_iff)

lemma owned_writes:
  "list_all (owned pid) evs \<Longrightarrow>
   list_all (\<lambda>u. map_of (op_filter u) ''project_id'' = Some (bson pid)) (writes_to c evs)"
  by (induction evs) (simp_all add: writes_to_def owned_ops)

lemma replay_foreign:
  assumes "list_all (owned pid) evs" "d \<in> set (s c)"
    and "map_of d ''project_id'' \<noteq> Some (bson pid)"
  shows "d \<in> set (replay evs s c)"
  unfolding replay_collection
  using owned_writes [OF assms(1)] assms(3,2) by (rule foreign_fold_upsert)

lemma no_target:
  "c \<notin> set (write_targets evs) \<Longrightarrow> list_all (\<lambda>ev. target ev \<noteq> Some c) evs"
  by (induction evs) (auto split: option.splits)

lemma commit_listing_fails:
  assumes conn: "db wA \<noteq> None"
    and M: "syncMembers e (property B ''id'') (project_saved B wA) = Some (Inr n, wM)"
    and C: "paginatedGet e
        (GITLAB_URL e @ ''/api/v4/projects/'' @ js_string (property B ''id'')
           @ ''/repository/commits'')
        [(''all'', JBool True), (''with_stats'', JBool True)]
        (console_log (''[gitlab-sync]   '' @ decimal_nat n @ '' members'') wM)
      = Some (Inl err, wB)"
  shows "syncProjects_loop e (B # rest) wA = Some (Inl err, wB) \<and>
     (\<exists>evs. wB = performs evs wA \<and> set (write_targets evs) \<subseteq> {''projects'', ''members''})"
proof -
  let ?l = "ConsoleLog (''[gitlab-sync]   '' @ decimal_nat n @ '' members'')"
  from project_saved_performs [of B wA] obtain evsP where P:
    "project_saved B wA = performs evsP wA" "write_targets evsP = [''projects'']" by blast
  from syncMembers_shape [OF M] obtain evsM where Mev:
    "wM = performs evsM (project_saved B wA)"
    "write_targets evsM = [] \<or> write_targets evsM = [''members'']" by blast
  from paginatedGet_fetches [OF C] obtain evsC where Cev:
    "wB = performs evsC (console_log (''[gitlab-sync]   '' @ decimal_nat n @ '' members'') wM)"
    "list_all (\<lambda>ev. target ev = None) evsC" by blast
  have "db (console_log (''[gitlab-sync]   '' @ decimal_nat n @ '' members'') wM) \<noteq> None"
    using conn Mev(1) P(1) by (simp add: console_log_def)
  then have sc: "syncCommits e (property B ''id'')
      (console_log (''[gitlab-sync]   '' @ decimal_nat n @ '' members'') wM) = Some (Inl err, wB)"
    using C by (simp add: syncCommits_def getDB_connected)
  have run: "syncProjects_loop e (B # rest) wA = Some (Inl err, wB)"
    unfolding loop_step using M sc by simp
  have eq: "wB = performs (evsP @ evsM @ ?l # evsC) wA"
    using P(1) Mev(1) Cev(1) by (simp add: console_log_def)
  have "set (write_targets (evsP @ evsM @ ?l # evsC)) \<subseteq> {''projects'', ''members''}"
    using P(2) Mev(2) write_targets_quiet [OF Cev(2)] by auto
  with run eq show ?thesis by blast
qed

lemma loop_abort:
  assumes "syncProjects_loop e prev w0 = Some (Inr (), wA)"
    and "syncProjects_loop e [B] wA = Some (Inl err, wB)"
  shows "syncProjects_loop e (prev @ B # rest) w0 = Some (Inl err, wB)"
proof -
  have "syncProjects_loop e (B # rest) wA = Some (Inl err, wB)"
    using loop_append [of e "[B]" rest wA] assms(2) by simp
  with assms(1) show ?thesis by (simp add: loop_append)
qed

text \<open>
  Claim C3 (fatal abort with persisted prefix), as amended. First conjunct: the writes
  issued for one project start with the upsert of the project record and go to
  \<^verbatim>\<open>projects\<close>, \<^verbatim>\<open>members\<close>, \<^verbatim>\<open>commits\<close>, \<^verbatim>\<open>merge_requests\<close>, \<^verbatim>\<open>issues\<close> in that order, each
  collection at most once. Second conjunct: when the project listing returned
  \<open>prev @ B # rest\<close>, the projects \<open>prev\<close> were synced and the processing of \<open>B\<close> throws, the run
  ends in the failed state right after the events of \<open>B\<close>, so no project of \<open>rest\<close> is
  processed; nothing is rolled back: the final store is the store the earlier projects
  left with the writes of \<open>B\<close> applied, every document in it whose \<^verbatim>\<open>project_id\<close> is not the
  id of \<open>B\<close> is still there unchanged, and no collection has lost a document. Third
  conjunct: when the members of \<open>B\<close> were synced and its commit listing fails, the processing
  of \<open>B\<close> throws that error, the writes issued for \<open>B\<close> went to \<^verbatim>\<open>projects\<close> and \<^verbatim>\<open>members\<close>
  only, and the collections \<^verbatim>\<open>commits\<close>, \<^verbatim>\<open>merge_requests\<close> and \<^verbatim>\<open>issues\<close> are as the earlier
  projects left them.
\<close>

theorem fatal_abort_keeps_prefix:
  "(syncProjects_loop e [p] v = Some (r, v') \<longrightarrow>
      (\<exists>evs. v' = performs evs v \<and> take 1 (write_targets evs) = [''projects''] \<and>
         in_order (write_targets evs) partitions)) \<and>
   (db w = Some s \<and>
    paginatedGet e (GITLAB_URL e @ ''/api/v4/projects'') [(''membership'', JBool True)]
        (console_log (''[gitlab-sync] Starting sync at '' @ start_iso clk) w)
      = Some (Inr (prev @ B # rest), w0) \<and>
    syncProjects_loop e prev
        (console_log (''[gitlab-sync] Found '' @ decimal_nat (length (prev @ B # rest))
                      @ '' projects'') w0)
      = Some (Inr (), wA) \<and>
    syncProjects_loop e [B] wA = Some (Inl err, wB) \<longrightarrow>
      (\<exists>sA evs.
         db wA = Some sA \<and> wB = performs evs wA \<and>
         runSync e clk w =
           Some (wB\<lparr>trace := trace wB @
                   [ConsoleError [''[gitlab-sync] Sync failed:'', message err]]\<rparr>) \<and>
         run_failed (wB\<lparr>trace := trace wB @
                   [ConsoleError [''[gitlab-sync] Sync failed:'', message err]]\<rparr>) \<and>
         db wB = Some (replay evs sA) \<and>
         (\<forall>c d. d \<in> set (sA c) \<and> map_of d ''project_id'' \<noteq> Some (bson (property B ''id''))
            \<longrightarrow> d \<in> set (replay evs sA c)) \<and>
         (\<forall>c. length (sA c) \<le> length (replay evs sA c)))) \<and>
   (db x = Some sx \<and>
    syncMembers e (property B ''id'') (project_saved B x) = Some (Inr n, xM) \<and>
    paginatedGet e
        (GITLAB_URL e @ ''/api/v4/projects/'' @ js_string (property B ''id'')
           @ ''/repository/commits'')
        [(''all'', JBool True), (''with_stats'', JBool True)]
        (console_log (''[gitlab-sync]   '' @ decimal_nat n @ '' members'') xM)
      = Some (Inl err', xB) \<longrightarrow>
      syncProjects_loop e [B] x = Some (Inl err', xB) \<and>
      (\<exists>evs. xB = performs evs x \<and>
         set (write_targets evs) \<subseteq> {''projects'', ''members''} \<and>
         replay evs sx ''commits'' = sx ''commits'' \<and>
         replay evs sx ''merge_requests'' = sx ''merge_requests'' \<and>
         replay evs sx ''issues'' = sx ''issues''))"
proof -
  have p1: "syncProjects_loop e [p] v = Some (r, v') \<longrightarrow>
      (\<exists>evs. v' = performs evs v \<and> take 1 (write_targets evs) = [''projects''] \<and>
         in_order (write_targets evs) partitions)"
    using body_order [of e p v r v'] unfolding partitions_def by blast
  have p2: "db w = Some s \<and>
    paginatedGet e (GITLAB_URL e @ ''/api/v4/projects'') [(''membership'', JBool True)]
        (console_log (''[gitlab-sync] Starting sync at '' @ start_iso clk) w)
      = Some (Inr (prev @ B # rest), w0) \<and>
    syncProjects_loop e prev
        (console_log (''[gitlab-sync] Found '' @ decimal_nat (length (prev @ B # rest))
                      @ '' projects'') w0)
      = Some (Inr (), wA) \<and>
    syncProjects_loop e [B] wA = Some (Inl err, wB) \<longrightarrow>
      (\<exists>sA evs.
         db wA = Some sA \<and> wB = performs evs wA \<and>
         runSync e clk w =
           Some (wB\<lparr>trace := trace wB @
                   [ConsoleError [''[gitlab-sync] Sync failed:'', message err]]\<rparr>) \<and>
         run_failed (wB\<lparr>trace := trace wB @
                   [ConsoleError [''[gitlab-sync] Sync failed:'', message err]]\<rparr>) \<and>
         db wB = Some (replay evs sA) \<and>
         (\<forall>c d. d \<in> set (sA c) \<and> map_of d ''project_id'' \<noteq> Some (bson (property B ''id''))
            \<longrightarrow> d \<in> set (replay evs sA c)) \<and>
         (\<forall>c. length (sA c) \<le> length (replay evs sA c)))"
  proof (intro impI, elim conjE)
    let ?x0 = "console_log (''[gitlab-sync] Starting sync at '' @ start_iso clk) w"
    let ?x1 = "console_log (''[gitlab-sync] Found '' @ decimal_nat (length (prev @ B # rest))
                      @ '' projects'') w0"
    assume s: "db w = Some s"
      and listing: "paginatedGet e (GITLAB_URL e @ ''/api/v4/projects'')
          [(''membership'', JBool True)] ?x0 = Some (Inr (prev @ B # rest), w0)"
      and A: "syncProjects_loop e prev ?x1 = Some (Inr (), wA)"
      and F: "syncProjects_loop e [B] wA = Some (Inl err, wB)"
    have c0: "db ?x0 \<noteq> None" using s by simp
    from paginatedGet_fetches [OF listing] obtain evsL where "w0 = performs evsL ?x0" by blast
    with c0 have c1: "db ?x1 \<noteq> None" by simp
    from tracksD [OF tracks_syncProjects_loop c1 A] obtain evsA where "wA = performs evsA ?x1"
      by blast
    with c1 obtain sA where sA: "db wA = Some sA" by (cases "db wA") auto
    from body_order [OF F] obtain evs where evs: "wB = performs evs wA"
      "list_all (owned (property B ''id'')) evs" by blast
    have "syncProjects_loop e (prev @ B # rest) ?x1 = Some (Inl err, wB)"
      using A F by (rule loop_abort)
    then have "syncProjects e ?x0 = Some (Inl err, wB)"
      using c0 listing by (simp add: syncProjects_def getDB_connected Let_def)
    then have run: "runSync e clk w =
           Some (wB\<lparr>trace := trace wB @
                   [ConsoleError [''[gitlab-sync] Sync failed:'', message err]]\<rparr>)"
      by (simp add: runSync_unfold)
    have failed: "run_failed (wB\<lparr>trace := trace wB @
                   [ConsoleError [''[gitlab-sync] Sync failed:'', message err]]\<rparr>)"
      by simp
    have store: "db wB = Some (replay evs sA)"
      using evs(1) sA by (simp add: db_performs)
    have keep: "\<forall>c d. d \<in> set (sA c) \<and>
        map_of d ''project_id'' \<noteq> Some (bson (property B ''id'')) \<longrightarrow> d \<in> set (replay evs sA c)"
      using replay_foreign [OF evs(2)] by blast
    have grow: "\<forall>c. length (sA c) \<le> length (replay evs sA c)"
      by (simp add: replay_length)
    from sA evs(1) run failed store keep grow
    show "\<exists>sA evs.
         db wA = Some sA \<and> wB = performs evs wA \<and>
         runSync e clk w =
           Some (wB\<lparr>trace := trace wB @
                   [ConsoleError [''[gitlab-sync] Sync failed:'', message err]]\<rparr>) \<and>
         run_failed (wB\<lparr>trace := trace wB @
                   [ConsoleError [''[gitlab-sync] Sync failed:'', message err]]\<rparr>) \<and>
         db wB = Some (replay evs sA) \<and>
         (\<forall>c d. d \<in> set (sA c) \<and> map_of d ''project_id'' \<noteq> Some (bson (property B ''id''))
            \<longrightarrow> d \<in> set (replay evs sA c)) \<and>
         (\<forall>c. length (sA c) \<le> length (replay evs sA c))"
      by blast
  qed
  have p3: "db x = Some sx \<and>
    syncMembers e (property B ''id'') (project_saved B x) = Some (Inr n, xM) \<and>
    paginatedGet e
        (GITLAB_URL e @ ''/api/v4/projects/'' @ js_string (property B ''id'')
           @ ''/repository/commits'')
        [(''all'', JBool True), (''with_stats'', JBool True)]
        (console_log (''[gitlab-sync]   '' @ decimal_nat n @ '' members'') xM)
      = Some (Inl err', xB) \<longrightarrow>
      syncProjects_loop e [B] x = Some (Inl err', xB) \<and>
      (\<exists>evs. xB = performs evs x \<and>
         set (write_targets evs) \<subseteq> {''projects'', ''members''} \<and>
         replay evs sx ''commits'' = sx ''commits'' \<and>
         replay evs sx ''merge_requests'' = sx ''merge_requests'' \<and>
         replay evs sx ''issues'' = sx ''issues'')"
  proof (intro impI, elim conjE)
    assume sx: "db x = Some sx"
      and M: "syncMembers e (property B ''id'') (project_saved B x) = Some (Inr n, xM)"
      and C: "paginatedGet e
        (GITLAB_URL e @ ''/api/v4/projects/'' @ js_string (property B ''id'')
           @ ''/repository/commits'')
        [(''all'', JBool True), (''with_stats'', JBool True)]
        (console_log (''[gitlab-sync]   '' @ decimal_nat n @ '' members'') xM)
      = Some (Inl err', xB)"
    from sx have "db x \<noteq> None" by simp
    from commit_listing_fails [OF this M C, of "[]"] obtain evs where
      run: "syncProjects_loop e [B] x = Some (Inl err', xB)" and
      evs: "xB = performs evs x" "set (write_targets evs) \<subseteq> {''projects'', ''members''}"
      by blast
    have "c \<notin> set (write_targets evs)" if "c \<noteq> ''projects''" "c \<noteq> ''members''" for c
      using evs(2) that by auto
    then have "replay evs sx c = sx c" if "c \<noteq> ''projects''" "c \<noteq> ''members''" for c
      using that by (intro replay_untouched no_target) simp
    then have "replay evs sx ''commits'' = sx ''commits''"
      "replay evs sx ''merge_requests'' = sx ''merge_requests''"
      "replay evs sx ''issues'' = sx ''issues''" by simp_all
    with run evs
    show "syncProjects_loop e [B] x = Some (Inl err', xB) \<and>
      (\<exists>evs. xB = performs evs x \<and>
         set (write_targets evs) \<subseteq> {''projects'', ''members''} \<and>
         replay evs sx ''commits'' = sx ''commits'' \<and>
         replay evs sx ''merge_requests'' = sx ''merge_requests'' \<and>
         replay evs sx ''issues'' = sx ''issues'')"
      by blast
  qed
  show ?thesis by (rule conjI [OF p1 conjI [OF p2 p3]])
qed

lemma late_syncProjects:
  "db w \<noteq> None \<Longrightarrow>
   syncProjects late_env w =
     Some (Inl (Error ''GitLab API error: 500 Internal Server Error for g/api/v4/projects/2/issues''),
           performs (broken_listing @ project1_events @ late_events) w)"
  by (simp add: run_simps late_env_def late_def healthy_def project1_events_def
      late_events_def broken_listing_def)

text \<open>
  The claim as stated lets any listing of the second project fail. When it is the issue
  listing that answers 500, the merge requests of that project have been written already:
  the run fails, its trace holds the bulk write for merge request 7 of project 2, and the
  store holds that merge request beside the one of project 1.
\<close>

theorem fatal_abort_counterexample:
  "fetch late_env ''g/api/v4/projects/2/issues?state=all&per_page=100&page=1''
     = Response 500 ''Internal Server Error'' [] \<and>
   runSync late_env demo_clock fresh = Some late_world \<and> run_failed late_world \<and>
   BulkWrite ''merge_requests'' [mr_op (JNum 2) (mr7 ''opened'')] \<in> set (trace late_world) \<and>
   length (the (db late_world) ''merge_requests'') = 2"
proof -
  let ?x0 = "console_log (''[gitlab-sync] Starting sync at '' @ start_iso demo_clock) fresh"
  have "db ?x0 \<noteq> None" by (simp add: fresh_def)
  from late_syncProjects [OF this]
  have "runSync late_env demo_clock fresh =
      Some ((performs (broken_listing @ project1_events @ late_events) ?x0)
        \<lparr>trace := trace (performs (broken_listing @ project1_events @ late_events) ?x0) @
          [ConsoleError [''[gitlab-sync] Sync failed:'',
           ''GitLab API error: 500 Internal Server Error for g/api/v4/projects/2/issues'']]\<rparr>)"
    by (simp add: runSync_unfold)
  moreover have "(performs (broken_listing @ project1_events @ late_events) ?x0)
        \<lparr>trace := trace (performs (broken_listing @ project1_events @ late_events) ?x0) @
          [ConsoleError [''[gitlab-sync] Sync failed:'',
           ''GitLab API error: 500 Internal Server Error for g/api/v4/projects/2/issues'']]\<rparr>
      = late_world"
    by (rule world.equality)
      (simp_all add: db_performs fresh_def demo_clock_def late_world_def broken_listing_def)
  ultimately have run: "runSync late_env demo_clock fresh = Some late_world" by simp
  have a: "fetch late_env ''g/api/v4/projects/2/issues?state=all&per_page=100&page=1''
     = Response 500 ''Internal Server Error'' []"
    by (simp add: late_env_def late_def)
  have b: "run_failed late_world" by (simp add: late_world_def run_failed_def)
  have c: "BulkWrite ''merge_requests'' [mr_op (JNum 2) (mr7 ''opened'')] \<in> set (trace late_world)"
    by (simp add: late_world_def late_events_def)
  have d: "length (the (db late_world) ''merge_requests'') = 2"
    by (simp add: late_world_def project1_events_def late_events_def empty_store_def store_simps)
  from a run b c d show ?thesis by blast
qed

text \<open>
  Two projects, the commit listing of the second answers 500: the run fails after the
  project record of the second project was written; the members, commits and merge
  requests of the first project are in the store, and nothing else.
\<close>

theorem fatal_abort_keeps_prefix_witness:
  "\<exists>w' s'. runSync broken_env demo_clock fresh = Some w' \<and> run_failed w' \<and>
     trace w' = ConsoleLog ''[gitlab-sync] Starting sync at 2024-01-01T00:00:00.000Z'' #
        broken_listing @ project1_events @ project2_events @
        [ConsoleError [''[gitlab-sync] Sync failed:'',
   ''GitLab API error: 500 Internal Server Error for g/api/v4/projects/2/repository/commits'']] \<and>
     db w' = Some s' \<and>
     s' ''commits'' = replay project1_events empty_store ''commits'' \<and>
     s' ''merge_requests'' = replay project1_events empty_store ''merge_requests'' \<and>
     s' ''issues'' = replay project1_events empty_store ''issues'' \<and>
     length (s' ''projects'') = 2 \<and> length (s' ''members'') = 1 \<and>
     length (s' ''commits'') = 1 \<and> length (s' ''merge_requests'') = 1 \<and>
     write_targets project2_events = [''projects'']"
proof -
  let ?x0 = "console_log (''[gitlab-sync] Starting sync at '' @ start_iso demo_clock) fresh"
  let ?w0 = "performs [Fetch ''g/api/v4/projects?membership=true&per_page=100&page=1'',
                       Fetch ''g/api/v4/projects?membership=true&per_page=100&page=2''] ?x0"
  let ?x1 = "console_log (''[gitlab-sync] Found ''
      @ decimal_nat (length ([project1] @ project2 # [])) @ '' projects'') ?w0"
  let ?wA = "performs project1_events ?x1"
  let ?wB = "performs project2_events ?wA"
  let ?sA = "replay project1_events empty_store"
  let ?xM = "performs [Fetch ''g/api/v4/projects/2/members/all?per_page=100&page=1'']
      (project_saved project2 ?wA)"
  let ?w' = "?wB\<lparr>trace := trace ?wB @
      [ConsoleError [''[gitlab-sync] Sync failed:'', message error_500]]\<rparr>"
  have s: "db fresh = Some empty_store" by (simp add: fresh_def)
  have listing: "paginatedGet broken_env (GITLAB_URL broken_env @ ''/api/v4/projects'')
      [(''membership'', JBool True)] ?x0 = Some (Inr ([project1] @ project2 # []), ?w0)"
    by (simp add: run_simps broken_env_def broken_def healthy_def)
  have A: "syncProjects_loop broken_env [project1] ?x1 = Some (Inr (), ?wA)"
    by (rule broken_project1) (simp add: fresh_def)
  have F: "syncProjects_loop broken_env [project2] ?wA = Some (Inl error_500, ?wB)"
    by (rule broken_project2) (simp add: fresh_def)
  have sA: "db ?wA = Some ?sA" by (simp add: db_performs fresh_def)
  have M: "syncMembers broken_env (property project2 ''id'') (project_saved project2 ?wA)
      = Some (Inr 0, ?xM)"
    by (simp add: run_simps broken_env_def broken_def healthy_def project_saved_def fresh_def)
  have C: "paginatedGet broken_env
        (GITLAB_URL broken_env @ ''/api/v4/projects/'' @ js_string (property project2 ''id'')
           @ ''/repository/commits'')
        [(''all'', JBool True), (''with_stats'', JBool True)]
        (console_log (''[gitlab-sync]   '' @ decimal_nat 0 @ '' members'') ?xM)
      = Some (Inl error_500, ?wB)"
    by (simp add: run_simps broken_env_def broken_def healthy_def project_saved_def
        project2_events_def error_500_def)
  note t = fatal_abort_keeps_prefix [where e = broken_env and w = fresh and s = empty_store
      and clk = demo_clock and prev = "[project1]" and B = project2 and rest = "[]"
      and ?w0.0 = ?w0 and wA = ?wA and err = error_500 and wB = ?wB
      and x = ?wA and sx = ?sA and n = 0 and xM = ?xM and err' = error_500 and xB = ?wB]
  from t s listing A F have run: "runSync broken_env demo_clock fresh = Some ?w'"
    and failed: "run_failed ?w'" by blast+
  from t sA M C obtain evs where evs: "?wB = performs evs ?wA"
    "replay evs ?sA ''commits'' = ?sA ''commits''"
    "replay evs ?sA ''merge_requests'' = ?sA ''merge_requests''"
    "replay evs ?sA ''issues'' = ?sA ''issues''" by blast
  have tr: "trace ?w' = ConsoleLog ''[gitlab-sync] Starting sync at 2024-01-01T00:00:00.000Z'' #
        broken_listing @ project1_events @ project2_events @
        [ConsoleError [''[gitlab-sync] Sync failed:'',
   ''GitLab API error: 500 Internal Server Error for g/api/v4/projects/2/repository/commits'']]"
    by (simp add: fresh_def demo_clock_def error_500_def broken_listing_def)
  have "db ?wB = Some (replay evs ?sA)"
    using arg_cong [OF evs(1), of db] sA by (simp only: db_performs option.map)
  then have store: "db ?w' = Some (replay evs ?sA)" by simp
  have "replay evs ?sA = replay (project1_events @ project2_events) empty_store"
    using \<open>db ?wB = Some (replay evs ?sA)\<close> by (simp add: db_performs fresh_def)
  then have counts: "length (replay evs ?sA ''projects'') = 2"
    "length (replay evs ?sA ''members'') = 1"
    "length (replay evs ?sA ''commits'') = 1"
    "length (replay evs ?sA ''merge_requests'') = 1"
    by (simp_all add: project1_events_def project2_events_def empty_store_def store_simps)
  have wt: "write_targets project2_events = [''projects'']"
    by (simp add: project2_events_def)
  from run failed tr store evs(2-4) counts wt show ?thesis by blast
qed

end
